theory Spec2Isabelle
  imports Main "HOL-Library.Word" "HOL-Library.Monad_Syntax"
begin

unbundle bit_operations_syntax

section \<open>The SPI flash driver of riscv\_test/sw/rvlib\_spiflash.c\<close>

text \<open>
  The driver talks to a memory-mapped SPI controller through register reads and writes and
  to a cycle counter. The hardware is the environment of the code: what a register read
  returns is not decided by the driver. The machine state therefore holds the answers the
  hardware is going to give to the coming register reads (\<open>reads\<close>), the values the coming
  reads of the cycle counter are going to return (\<open>cycles\<close>), and the accesses the driver has
  made so far, oldest first (\<open>trace\<close>). A polling loop of the source uses up one answer per
  round, so every loop of the model is a total function; when the answers run out while the
  code is still waiting, the result is \<open>None\<close>.
\<close>

subsection \<open>Hardware access\<close>

datatype event =
    Rd "32 word" "32 word"   \<comment> \<open>read of the register at an offset, and the value read\<close>
  | Wr "32 word" "32 word"   \<comment> \<open>write to the register at an offset, and the value written\<close>
  | Cyc "64 word"            \<comment> \<open>read of the cycle counter\<close>

record hw =
  reads :: "32 word list"
  cycles :: "64 word list"
  trace :: "event list"

text \<open>
  Modelled from the spec: \<open>rvlib_hw_read_reg\<close> is declared in rvlib\_hardware.h, which is
  not among the sources; the spec takes it as a given hardware-access primitive. A read
  takes the next answer of the hardware and records the access. A register is named by
  its offset from the base address \<open>RVSYS_ADDR_SPIFLASH\<close> of the controller (STATUS = +0,
  SLAVESEL = +4, DATA = +8).
\<close>

definition rvlib_hw_read_reg :: "32 word \<Rightarrow> hw \<Rightarrow> (32 word \<times> hw) option" where
  "rvlib_hw_read_reg a h =
     (case reads h of
        [] \<Rightarrow> None
      | v # vs \<Rightarrow> Some (v, h\<lparr>reads := vs, trace := trace h @ [Rd a v]\<rparr>))"

text \<open>
  Modelled from the spec: \<open>rvlib_hw_write_reg\<close> is declared in rvlib\_hardware.h as well.
  A write records the access; what the controller does with it shows in its later answers.
\<close>

definition rvlib_hw_write_reg :: "32 word \<Rightarrow> 32 word \<Rightarrow> hw \<Rightarrow> hw" where
  "rvlib_hw_write_reg a v h = h\<lparr>trace := trace h @ [Wr a v]\<rparr>"

text \<open>
  Modelled from the spec: \<open>get_cycle_counter\<close> is declared in rvlib\_time.h, which is not
  among the sources; it returns the 64-bit cycle counter of the hardware.
\<close>

definition get_cycle_counter :: "hw \<Rightarrow> (64 word \<times> hw) option" where
  "get_cycle_counter h =
     (case cycles h of
        [] \<Rightarrow> None
      | t # ts \<Rightarrow> Some (t, h\<lparr>cycles := ts, trace := trace h @ [Cyc t]\<rparr>))"

subsection \<open>Constants of the source\<close>

definition RVLIB_SPIFLASH_REG_STATUS :: "32 word" where "RVLIB_SPIFLASH_REG_STATUS = 0"
definition RVLIB_SPIFLASH_REG_SLAVESEL :: "32 word" where "RVLIB_SPIFLASH_REG_SLAVESEL = 4"
definition RVLIB_SPIFLASH_REG_DATA :: "32 word" where "RVLIB_SPIFLASH_REG_DATA = 8"
definition RVLIB_SPIFLASH_BIT_STATUS_BUSY :: nat where "RVLIB_SPIFLASH_BIT_STATUS_BUSY = 0"
definition RVLIB_SPIFLASH_BIT_STATUS_CMDRDY :: nat where "RVLIB_SPIFLASH_BIT_STATUS_CMDRDY = 1"
definition RVLIB_SPIFLASH_BIT_STATUS_READRDY :: nat where "RVLIB_SPIFLASH_BIT_STATUS_READRDY = 2"

definition SPIFLASH_PROGRAM_TIMEOUT_US :: "32 word" where "SPIFLASH_PROGRAM_TIMEOUT_US = 5000"
definition SPIFLASH_ERASE_TIMEOUT_US :: "32 word" where
  "SPIFLASH_ERASE_TIMEOUT_US = 3 * 1000 * 1000"

definition SPIFLASH_CMD_READ_ID :: "8 word" where "SPIFLASH_CMD_READ_ID = 0x9f"
definition SPIFLASH_CMD_READ :: "8 word" where "SPIFLASH_CMD_READ = 0x03"
definition SPIFLASH_CMD_WRITE_ENABLE :: "8 word" where "SPIFLASH_CMD_WRITE_ENABLE = 0x06"
definition SPIFLASH_CMD_READ_FLAGS :: "8 word" where "SPIFLASH_CMD_READ_FLAGS = 0x70"
definition SPIFLASH_CMD_CLEAR_FLAGS :: "8 word" where "SPIFLASH_CMD_CLEAR_FLAGS = 0x50"
definition SPIFLASH_CMD_PAGE_PROGRAM :: "8 word" where "SPIFLASH_CMD_PAGE_PROGRAM = 0x02"
definition SPIFLASH_CMD_SECTOR_ERASE :: "8 word" where "SPIFLASH_CMD_SECTOR_ERASE = 0xd8"
definition SPIFLASH_BIT_FLAGS_PROGRAM_ERROR :: nat where "SPIFLASH_BIT_FLAGS_PROGRAM_ERROR = 4"
definition SPIFLASH_BIT_FLAGS_ERASE_ERROR :: nat where "SPIFLASH_BIT_FLAGS_ERASE_ERROR = 5"
definition SPIFLASH_BIT_FLAGS_READY :: nat where "SPIFLASH_BIT_FLAGS_READY = 7"

definition RVLIB_SPIFLASH_ERR_FAILED :: int where "RVLIB_SPIFLASH_ERR_FAILED = -1"
definition RVLIB_SPIFLASH_ERR_TIMEOUT :: int where "RVLIB_SPIFLASH_ERR_TIMEOUT = -2"
definition RVLIB_SPIFLASH_ERR_NOTREADY :: int where "RVLIB_SPIFLASH_ERR_NOTREADY = -3"

named_theorems src_consts \<open>the values of the constants of the source\<close>

lemmas source_constants [src_consts] =
  RVLIB_SPIFLASH_REG_STATUS_def RVLIB_SPIFLASH_REG_SLAVESEL_def RVLIB_SPIFLASH_REG_DATA_def
  RVLIB_SPIFLASH_BIT_STATUS_BUSY_def RVLIB_SPIFLASH_BIT_STATUS_CMDRDY_def
  RVLIB_SPIFLASH_BIT_STATUS_READRDY_def
  SPIFLASH_PROGRAM_TIMEOUT_US_def SPIFLASH_ERASE_TIMEOUT_US_def
  SPIFLASH_CMD_READ_ID_def SPIFLASH_CMD_READ_def SPIFLASH_CMD_WRITE_ENABLE_def
  SPIFLASH_CMD_READ_FLAGS_def SPIFLASH_CMD_CLEAR_FLAGS_def SPIFLASH_CMD_PAGE_PROGRAM_def
  SPIFLASH_CMD_SECTOR_ERASE_def SPIFLASH_BIT_FLAGS_PROGRAM_ERROR_def
  SPIFLASH_BIT_FLAGS_ERASE_ERROR_def SPIFLASH_BIT_FLAGS_READY_def
  RVLIB_SPIFLASH_ERR_FAILED_def RVLIB_SPIFLASH_ERR_TIMEOUT_def RVLIB_SPIFLASH_ERR_NOTREADY_def

subsection \<open>Bus primitives\<close>

lemma read_reg_shorter:
  "rvlib_hw_read_reg a h = Some (v, h1) \<Longrightarrow> length (reads h1) < length (reads h)"
  by (auto simp: rvlib_hw_read_reg_def split: list.splits)

text \<open>The waiting loop of \<open>spi_send_byte\<close>: read STATUS until CMDRDY is set.\<close>

function spi_send_byte_wait :: "hw \<Rightarrow> hw option" where
  "spi_send_byte_wait h =
     (case rvlib_hw_read_reg RVLIB_SPIFLASH_REG_STATUS h of
        None \<Rightarrow> None
      | Some (status, h1) \<Rightarrow>
          if status AND push_bit RVLIB_SPIFLASH_BIT_STATUS_CMDRDY 1 \<noteq> 0 then Some h1
          else spi_send_byte_wait h1)"
  by pat_completeness auto
termination
  by (relation "measure (\<lambda>h. length (reads h))") (auto dest: read_reg_shorter)

declare spi_send_byte_wait.simps [simp del]

definition spi_send_byte :: "8 word \<Rightarrow> hw \<Rightarrow> hw option" where
  "spi_send_byte b h =
     (case spi_send_byte_wait h of
        None \<Rightarrow> None
      | Some h1 \<Rightarrow> Some (rvlib_hw_write_reg RVLIB_SPIFLASH_REG_DATA (ucast b) h1))"

text \<open>
  The loop of \<open>spi_read_bytes\<close>, with the local variables \<open>p\<close> and \<open>ncmd\<close> and the
  buffer as arguments. \<open>size_t\<close> values are natural numbers: \<open>p\<close> is incremented only
  below \<open>nbytes\<close> and \<open>ncmd\<close> decremented only above 0, so neither wraps. The buffer is
  the memory behind the pointer \<open>buf\<close>, a function from index to byte; the store
  \<open>buf[p] = data\<close> keeps the low 8 bits. The loop returns its final \<open>p\<close> and \<open>ncmd\<close>
  with the buffer.
\<close>

function spi_read_bytes_loop ::
  "nat \<Rightarrow> nat \<Rightarrow> nat \<Rightarrow> (nat \<Rightarrow> 8 word) \<Rightarrow> hw \<Rightarrow> (nat \<times> nat \<times> (nat \<Rightarrow> 8 word) \<times> hw) option"
where
  "spi_read_bytes_loop nbytes p ncmd buf h =
     (if p < nbytes then
        (case rvlib_hw_read_reg RVLIB_SPIFLASH_REG_STATUS h of
           None \<Rightarrow> None
         | Some (status, h1) \<Rightarrow>
             (case (if ncmd > 0 then
                      (if status AND push_bit RVLIB_SPIFLASH_BIT_STATUS_CMDRDY 1 \<noteq> 0
                       then (ncmd - 1, rvlib_hw_write_reg RVLIB_SPIFLASH_REG_DATA 0x100 h1)
                       else (ncmd, h1))
                    else (ncmd, h1)) of
                (ncmd', h2) \<Rightarrow>
                  if status AND push_bit RVLIB_SPIFLASH_BIT_STATUS_READRDY 1 \<noteq> 0 then
                    (case rvlib_hw_read_reg RVLIB_SPIFLASH_REG_DATA h2 of
                       None \<Rightarrow> None
                     | Some (data, h3) \<Rightarrow>
                         spi_read_bytes_loop nbytes (p + 1) ncmd' (buf(p := ucast data)) h3)
                  else spi_read_bytes_loop nbytes p ncmd' buf h2))
      else Some (p, ncmd, buf, h))"
  by pat_completeness auto
termination
  by (relation "measure (\<lambda>(nbytes, p, ncmd, buf, h). length (reads h))")
     (auto dest!: read_reg_shorter simp: rvlib_hw_write_reg_def split: if_splits)

declare spi_read_bytes_loop.simps [simp del]

definition spi_read_bytes :: "(nat \<Rightarrow> 8 word) \<Rightarrow> nat \<Rightarrow> hw \<Rightarrow> ((nat \<Rightarrow> 8 word) \<times> hw) option" where
  "spi_read_bytes buf nbytes h =
     (case spi_read_bytes_loop nbytes 0 nbytes buf h of
        None \<Rightarrow> None
      | Some (p, ncmd, buf', h') \<Rightarrow> Some (buf', h'))"

text \<open>The waiting loop of \<open>spi_end_transaction\<close>: read STATUS until BUSY is clear.\<close>

function spi_end_transaction_wait :: "hw \<Rightarrow> hw option" where
  "spi_end_transaction_wait h =
     (case rvlib_hw_read_reg RVLIB_SPIFLASH_REG_STATUS h of
        None \<Rightarrow> None
      | Some (status, h1) \<Rightarrow>
          if status AND push_bit RVLIB_SPIFLASH_BIT_STATUS_BUSY 1 = 0 then Some h1
          else spi_end_transaction_wait h1)"
  by pat_completeness auto
termination
  by (relation "measure (\<lambda>h. length (reads h))") (auto dest: read_reg_shorter)

declare spi_end_transaction_wait.simps [simp del]

definition spi_end_transaction :: "hw \<Rightarrow> hw option" where
  "spi_end_transaction h =
     (case spi_end_transaction_wait h of
        None \<Rightarrow> None
      | Some h1 \<Rightarrow> Some (rvlib_hw_write_reg RVLIB_SPIFLASH_REG_SLAVESEL 0 h1))"

subsection \<open>How the primitives use up the hardware's answers\<close>

lemma send_byte_wait_shorter:
  "spi_send_byte_wait h = Some h' \<Longrightarrow>
     length (reads h') < length (reads h) \<and> cycles h' = cycles h"
proof (induction h rule: spi_send_byte_wait.induct)
  case (1 h)
  note unf = spi_send_byte_wait.simps [of h]
  from "1.prems" obtain status h1 where
    rd: "rvlib_hw_read_reg RVLIB_SPIFLASH_REG_STATUS h = Some (status, h1)"
    by (auto simp: unf split: option.splits)
  have step: "length (reads h1) < length (reads h) \<and> cycles h1 = cycles h"
    using rd by (auto simp: rvlib_hw_read_reg_def split: list.splits)
  show ?case
  proof (cases "status AND push_bit RVLIB_SPIFLASH_BIT_STATUS_CMDRDY 1 \<noteq> 0")
    case True
    with "1.prems" rd step show ?thesis by (simp add: unf)
  next
    case False
    with "1.prems" rd have "spi_send_byte_wait h1 = Some h'" by (simp add: unf)
    with "1.IH" [OF rd refl] False step show ?thesis by simp
  qed
qed

lemma send_byte_shorter:
  "spi_send_byte b h = Some h' \<Longrightarrow>
     length (reads h') < length (reads h) \<and> cycles h' = cycles h"
  by (auto simp: spi_send_byte_def rvlib_hw_write_reg_def
           dest: send_byte_wait_shorter split: option.splits)

lemma read_bytes_loop_shorter:
  "spi_read_bytes_loop nbytes p ncmd buf h = Some r \<Longrightarrow>
     length (reads (snd (snd (snd r)))) \<le> length (reads h) \<and>
     cycles (snd (snd (snd r))) = cycles h"
proof (induction nbytes p ncmd buf h rule: spi_read_bytes_loop.induct)
  case (1 nbytes p ncmd buf h)
  note unf = spi_read_bytes_loop.simps [of nbytes p ncmd buf h]
  show ?case
  proof (cases "p < nbytes")
    case False
    with "1.prems" show ?thesis by (auto simp: unf)
  next
    case True
    with "1.prems" obtain status h1 where
      rd: "rvlib_hw_read_reg RVLIB_SPIFLASH_REG_STATUS h = Some (status, h1)"
      by (auto simp: unf split: option.splits)
    define st where "st = (if ncmd > 0 then
        (if status AND push_bit RVLIB_SPIFLASH_BIT_STATUS_CMDRDY 1 \<noteq> 0
         then (ncmd - 1, rvlib_hw_write_reg RVLIB_SPIFLASH_REG_DATA 0x100 h1)
         else (ncmd, h1))
      else (ncmd, h1))"
    obtain ncmd' h2 where st: "st = (ncmd', h2)" by (cases st)
    have h1: "length (reads h1) < length (reads h) \<and> cycles h1 = cycles h"
      using rd by (auto simp: rvlib_hw_read_reg_def split: list.splits)
    have h2: "reads h2 = reads h1 \<and> cycles h2 = cycles h1"
      using st by (auto simp: st_def rvlib_hw_write_reg_def split: if_splits)
    show ?thesis
    proof (cases "status AND push_bit RVLIB_SPIFLASH_BIT_STATUS_READRDY 1 \<noteq> 0")
      case rr: True
      with "1.prems" True rd st obtain data h3 where
        rd2: "rvlib_hw_read_reg RVLIB_SPIFLASH_REG_DATA h2 = Some (data, h3)"
        and rest: "spi_read_bytes_loop nbytes (p + 1) ncmd' (buf(p := ucast data)) h3 = Some r"
        by (auto simp: unf st_def split: option.splits)
      have h3: "length (reads h3) < length (reads h2) \<and> cycles h3 = cycles h2"
        using rd2 by (auto simp: rvlib_hw_read_reg_def split: list.splits)
      from "1.IH"(1) [OF True rd refl st [unfolded st_def, symmetric] rr rd2 refl rest]
      show ?thesis using h1 h2 h3 by simp
    next
      case nr: False
      with "1.prems" True rd st have
        rest: "spi_read_bytes_loop nbytes p ncmd' buf h2 = Some r"
        by (auto simp: unf st_def split: option.splits)
      from "1.IH"(2) [OF True rd refl st [unfolded st_def, symmetric] nr rest]
      show ?thesis using h1 h2 by simp
    qed
  qed
qed

lemma read_bytes_shorter:
  "spi_read_bytes buf nbytes h = Some (buf', h') \<Longrightarrow>
     length (reads h') \<le> length (reads h) \<and> cycles h' = cycles h"
  by (auto simp: spi_read_bytes_def dest: read_bytes_loop_shorter split: option.splits)

lemma end_transaction_wait_shorter:
  "spi_end_transaction_wait h = Some h' \<Longrightarrow>
     length (reads h') < length (reads h) \<and> cycles h' = cycles h"
proof (induction h rule: spi_end_transaction_wait.induct)
  case (1 h)
  note unf = spi_end_transaction_wait.simps [of h]
  from "1.prems" obtain status h1 where
    rd: "rvlib_hw_read_reg RVLIB_SPIFLASH_REG_STATUS h = Some (status, h1)"
    by (auto simp: unf split: option.splits)
  have step: "length (reads h1) < length (reads h) \<and> cycles h1 = cycles h"
    using rd by (auto simp: rvlib_hw_read_reg_def split: list.splits)
  show ?case
  proof (cases "status AND push_bit RVLIB_SPIFLASH_BIT_STATUS_BUSY 1 = 0")
    case True
    with "1.prems" rd step show ?thesis by (simp add: unf)
  next
    case False
    with "1.prems" rd have "spi_end_transaction_wait h1 = Some h'" by (simp add: unf)
    with "1.IH" [OF rd refl] False step show ?thesis by simp
  qed
qed

lemma end_transaction_shorter:
  "spi_end_transaction h = Some h' \<Longrightarrow>
     length (reads h') < length (reads h) \<and> cycles h' = cycles h"
  by (auto simp: spi_end_transaction_def rvlib_hw_write_reg_def
           dest: end_transaction_wait_shorter split: option.splits)

subsection \<open>Command framing\<close>

definition spi_command_simple :: "8 word \<Rightarrow> hw \<Rightarrow> hw option" where
  "spi_command_simple cmd h = do {
     h1 \<leftarrow> spi_send_byte cmd h;
     spi_end_transaction h1
   }"

definition spi_command_read ::
  "8 word \<Rightarrow> (nat \<Rightarrow> 8 word) \<Rightarrow> nat \<Rightarrow> hw \<Rightarrow> ((nat \<Rightarrow> 8 word) \<times> hw) option" where
  "spi_command_read cmd buf nbytes h = do {
     h1 \<leftarrow> spi_send_byte cmd h;
     (buf', h2) \<leftarrow> spi_read_bytes buf nbytes h1;
     h3 \<leftarrow> spi_end_transaction h2;
     Some (buf', h3)
   }"

text \<open>The address bytes are passed to a \<open>uint8_t\<close> parameter: the low 8 bits are kept.\<close>

definition spi_command_addr_read ::
  "8 word \<Rightarrow> 32 word \<Rightarrow> (nat \<Rightarrow> 8 word) \<Rightarrow> nat \<Rightarrow> hw \<Rightarrow> ((nat \<Rightarrow> 8 word) \<times> hw) option" where
  "spi_command_addr_read cmd addr buf nbytes h = do {
     h1 \<leftarrow> spi_send_byte cmd h;
     h2 \<leftarrow> spi_send_byte (ucast (drop_bit 16 addr)) h1;
     h3 \<leftarrow> spi_send_byte (ucast (drop_bit 8 addr)) h2;
     h4 \<leftarrow> spi_send_byte (ucast addr) h3;
     (buf', h5) \<leftarrow> spi_read_bytes buf nbytes h4;
     h6 \<leftarrow> spi_end_transaction h5;
     Some (buf', h6)
   }"

text \<open>The \<open>for\<close> loop of \<open>spi_command_addr_write\<close> over the payload.\<close>

function spi_command_addr_write_loop :: "(nat \<Rightarrow> 8 word) \<Rightarrow> nat \<Rightarrow> nat \<Rightarrow> hw \<Rightarrow> hw option" where
  "spi_command_addr_write_loop data nbytes p h =
     (if p < nbytes then
        (case spi_send_byte (data p) h of
           None \<Rightarrow> None
         | Some h1 \<Rightarrow> spi_command_addr_write_loop data nbytes (p + 1) h1)
      else Some h)"
  by pat_completeness auto
termination
  by (relation "measure (\<lambda>(data, nbytes, p, h). nbytes - p)") auto

declare spi_command_addr_write_loop.simps [simp del]

definition spi_command_addr_write ::
  "8 word \<Rightarrow> 32 word \<Rightarrow> (nat \<Rightarrow> 8 word) \<Rightarrow> nat \<Rightarrow> hw \<Rightarrow> hw option" where
  "spi_command_addr_write cmd addr data nbytes h = do {
     h1 \<leftarrow> spi_send_byte cmd h;
     h2 \<leftarrow> spi_send_byte (ucast (drop_bit 16 addr)) h1;
     h3 \<leftarrow> spi_send_byte (ucast (drop_bit 8 addr)) h2;
     h4 \<leftarrow> spi_send_byte (ucast addr) h3;
     h5 \<leftarrow> spi_command_addr_write_loop data nbytes 0 h4;
     spi_end_transaction h5
   }"

lemma command_read_shorter:
  "spi_command_read cmd buf nbytes h = Some (buf', h') \<Longrightarrow>
     length (reads h') < length (reads h) \<and> cycles h' = cycles h"
  by (fastforce simp: spi_command_read_def bind_eq_Some_conv
        dest: send_byte_shorter read_bytes_shorter end_transaction_shorter)

subsection \<open>Completion polling\<close>

text \<open>
  The test of the source on the time that remains, \<open>tremain >= (((uint64_t)1) << 63)\<close>,
  with \<open>tremain = end_time - time_now\<close> in \<open>uint64_t\<close>.
\<close>

definition poll_expired :: "64 word \<Rightarrow> 64 word \<Rightarrow> bool" where
  "poll_expired end_time time_now =
     (let tremain = end_time - time_now in tremain \<ge> push_bit 63 1)"

text \<open>
  The loop of \<open>spiflash_poll_completion\<close>. The local variable \<open>flags\<close> is the one-byte
  buffer of the READ\_FLAGS transaction; it is an argument of the loop, and the value it
  has before the first transaction (none in the source) is never looked at.
\<close>

function spiflash_poll_loop :: "64 word \<Rightarrow> 8 word \<Rightarrow> hw \<Rightarrow> (8 word \<times> hw) option" where
  "spiflash_poll_loop end_time flags h =
     (case spi_command_read SPIFLASH_CMD_READ_FLAGS (\<lambda>_. flags) 1 h of
        None \<Rightarrow> None
      | Some (buf, h1) \<Rightarrow>
          if (ucast (buf 0) :: 32 word) AND push_bit SPIFLASH_BIT_FLAGS_READY 1 \<noteq> 0
          then Some (buf 0, h1)
          else
            (case get_cycle_counter h1 of
               None \<Rightarrow> None
             | Some (time_now, h2) \<Rightarrow>
                 if poll_expired end_time time_now then Some (buf 0, h2)
                 else spiflash_poll_loop end_time (buf 0) h2))"
  by pat_completeness auto
termination
  by (relation "measure (\<lambda>(end_time, flags, h). length (reads h))")
     (auto dest!: command_read_shorter simp: get_cycle_counter_def split: list.splits)

declare spiflash_poll_loop.simps [simp del]

text \<open>
  Modelled from the spec: \<open>RVLIB_CPU_FREQ_MHZ\<close>, the number of cycles per microsecond, is
  a macro of rvlib\_hardware.h, which is not among the sources. It is the parameter
  \<open>freq\<close>, already converted to \<open>uint64_t\<close> as the multiplication of the source does.
\<close>

definition spiflash_poll_completion :: "64 word \<Rightarrow> 32 word \<Rightarrow> hw \<Rightarrow> (8 word \<times> hw) option" where
  "spiflash_poll_completion freq timeout_us h = do {
     (end_time, h1) \<leftarrow> get_cycle_counter h;
     spiflash_poll_loop (end_time + freq * ucast timeout_us) 0 h1
   }"

subsection \<open>Flash operations\<close>

text \<open>The draining loop at the start of \<open>rvlib_spiflash_init\<close>.\<close>

function spiflash_init_drain :: "hw \<Rightarrow> hw option" where
  "spiflash_init_drain h =
     (case rvlib_hw_read_reg RVLIB_SPIFLASH_REG_STATUS h of
        None \<Rightarrow> None
      | Some (status, h1) \<Rightarrow>
          if status AND push_bit RVLIB_SPIFLASH_BIT_STATUS_READRDY 1 \<noteq> 0 then
            (case rvlib_hw_read_reg RVLIB_SPIFLASH_REG_DATA h1 of
               None \<Rightarrow> None
             | Some (data, h2) \<Rightarrow> spiflash_init_drain h2)
          else if status AND push_bit RVLIB_SPIFLASH_BIT_STATUS_BUSY 1 = 0 then Some h1
          else spiflash_init_drain h1)"
  by pat_completeness auto
termination
  by (relation "measure (\<lambda>h. length (reads h))") (auto dest!: read_reg_shorter)

declare spiflash_init_drain.simps [simp del]

definition rvlib_spiflash_init :: "64 word \<Rightarrow> hw \<Rightarrow> hw option" where
  "rvlib_spiflash_init freq h = do {
     h1 \<leftarrow> spiflash_init_drain h;
     h2 \<leftarrow> spi_command_simple 0xff h1;
     h3 \<leftarrow> spi_command_simple 0xff h2;
     h4 \<leftarrow> spi_command_simple SPIFLASH_CMD_CLEAR_FLAGS h3;
     (flags, h5) \<leftarrow> spiflash_poll_completion freq SPIFLASH_ERASE_TIMEOUT_US h4;
     Some h5
   }"

record rvlib_spiflash_device_id =
  manufacturer_id :: "8 word"
  device_id :: "16 word"

definition rvlib_spiflash_read_id :: "hw \<Rightarrow> (rvlib_spiflash_device_id \<times> hw) option" where
  "rvlib_spiflash_read_id h = do {
     (buf, h1) \<leftarrow> spi_command_read SPIFLASH_CMD_READ_ID (\<lambda>_. 0) 3 h;
     Some (\<lparr>manufacturer_id = buf 0,
            device_id = ucast (push_bit 8 (ucast (buf 1) :: 32 word) OR ucast (buf 2))\<rparr>, h1)
   }"

definition rvlib_spiflash_read_mem ::
  "32 word \<Rightarrow> (nat \<Rightarrow> 8 word) \<Rightarrow> nat \<Rightarrow> hw \<Rightarrow> ((nat \<Rightarrow> 8 word) \<times> hw) option" where
  "rvlib_spiflash_read_mem address buf nbytes h =
     spi_command_addr_read SPIFLASH_CMD_READ address buf nbytes h"

text \<open>
  The two write-class operations return the \<open>int\<close> of the source. The local \<open>flags\<close> is
  the one-byte buffer of the first READ\_FLAGS transaction and then takes the result of the
  completion poll; the flag tests are made on its promotion to 32 bits.
\<close>

definition rvlib_spiflash_page_program ::
  "64 word \<Rightarrow> 32 word \<Rightarrow> (nat \<Rightarrow> 8 word) \<Rightarrow> nat \<Rightarrow> hw \<Rightarrow> (int \<times> hw) option" where
  "rvlib_spiflash_page_program freq address data nbytes h = do {
     (buf, h1) \<leftarrow> spi_command_read SPIFLASH_CMD_READ_FLAGS (\<lambda>_. 0) 1 h;
     if (ucast (buf 0) :: 32 word) AND push_bit SPIFLASH_BIT_FLAGS_READY 1 = 0
     then Some (RVLIB_SPIFLASH_ERR_NOTREADY, h1)
     else do {
       h2 \<leftarrow> spi_command_simple SPIFLASH_CMD_CLEAR_FLAGS h1;
       h3 \<leftarrow> spi_command_simple SPIFLASH_CMD_WRITE_ENABLE h2;
       h4 \<leftarrow> spi_command_addr_write SPIFLASH_CMD_PAGE_PROGRAM address data nbytes h3;
       (flags, h5) \<leftarrow> spiflash_poll_completion freq SPIFLASH_PROGRAM_TIMEOUT_US h4;
       if (ucast flags :: 32 word) AND push_bit SPIFLASH_BIT_FLAGS_READY 1 = 0
       then Some (RVLIB_SPIFLASH_ERR_TIMEOUT, h5)
       else if (ucast flags :: 32 word) AND push_bit SPIFLASH_BIT_FLAGS_PROGRAM_ERROR 1 \<noteq> 0
       then do {
         h6 \<leftarrow> spi_command_simple SPIFLASH_CMD_CLEAR_FLAGS h5;
         Some (RVLIB_SPIFLASH_ERR_FAILED, h6)
       }
       else Some (0, h5)
     }
   }"

text \<open>
  \<open>rvlib_spiflash_sector_erase\<close> passes a null pointer and the length 0 as payload; the
  null pointer is never read, and the model passes the buffer of zeros.
\<close>

definition rvlib_spiflash_sector_erase :: "64 word \<Rightarrow> 32 word \<Rightarrow> hw \<Rightarrow> (int \<times> hw) option" where
  "rvlib_spiflash_sector_erase freq address h = do {
     (buf, h1) \<leftarrow> spi_command_read SPIFLASH_CMD_READ_FLAGS (\<lambda>_. 0) 1 h;
     if (ucast (buf 0) :: 32 word) AND push_bit SPIFLASH_BIT_FLAGS_READY 1 = 0
     then Some (RVLIB_SPIFLASH_ERR_NOTREADY, h1)
     else do {
       h2 \<leftarrow> spi_command_simple SPIFLASH_CMD_CLEAR_FLAGS h1;
       h3 \<leftarrow> spi_command_simple SPIFLASH_CMD_WRITE_ENABLE h2;
       h4 \<leftarrow> spi_command_addr_write SPIFLASH_CMD_SECTOR_ERASE address (\<lambda>_. 0) 0 h3;
       (flags, h5) \<leftarrow> spiflash_poll_completion freq SPIFLASH_ERASE_TIMEOUT_US h4;
       if (ucast flags :: 32 word) AND push_bit SPIFLASH_BIT_FLAGS_READY 1 = 0
       then Some (RVLIB_SPIFLASH_ERR_TIMEOUT, h5)
       else if (ucast flags :: 32 word) AND push_bit SPIFLASH_BIT_FLAGS_ERASE_ERROR 1 \<noteq> 0
       then do {
         h6 \<leftarrow> spi_command_simple SPIFLASH_CMD_CLEAR_FLAGS h5;
         Some (RVLIB_SPIFLASH_ERR_FAILED, h6)
       }
       else Some (0, h5)
     }
   }"

section \<open>Traces and concrete runs\<close>

text \<open>
  The vocabulary of the statements below: what a trace shows of the bytes sent and received,
  of the deselects and of the clock reads; checks of a trace; the state sequence that the
  spec gives for the write-class operations; and the machine states of the concrete runs.
\<close>

text \<open>
  What a trace shows: the values read from DATA, the values written to DATA, the values
  written to SLAVESEL, and the values read from the cycle counter, each in the order of the
  accesses; and the trace of a row of STATUS reads.
\<close>

definition received :: "event list \<Rightarrow> 32 word list" where
  "received tr = [v. Rd a v \<leftarrow> tr, a = RVLIB_SPIFLASH_REG_DATA]"

definition sent :: "event list \<Rightarrow> 32 word list" where
  "sent tr = [v. Wr a v \<leftarrow> tr, a = RVLIB_SPIFLASH_REG_DATA]"

definition deselects :: "event list \<Rightarrow> 32 word list" where
  "deselects tr = [v. Wr a v \<leftarrow> tr, a = RVLIB_SPIFLASH_REG_SLAVESEL]"

definition clock_reads :: "event list \<Rightarrow> 64 word list" where
  "clock_reads tr = [t. Cyc t \<leftarrow> tr]"

definition status_polls :: "32 word list \<Rightarrow> event list" where
  "status_polls ss = map (Rd RVLIB_SPIFLASH_REG_STATUS) ss"

text \<open>
  The accesses of a trace other than the reads of STATUS, in order: what goes over the bus
  (writes to DATA and SLAVESEL, reads of DATA) and the reads of the clock, with the polling
  of STATUS left out.
\<close>

definition bus :: "event list \<Rightarrow> event list" where
  "bus tr = filter (\<lambda>e. case e of Rd a v \<Rightarrow> a \<noteq> RVLIB_SPIFLASH_REG_STATUS | _ \<Rightarrow> True) tr"

text \<open>
  The bus accesses of one READ\_FLAGS transaction that makes \<open>k\<close> dummy requests and
  receives \<open>r\<close>.
\<close>

definition query_bus :: "nat \<Rightarrow> 32 word \<Rightarrow> event list" where
  "query_bus k r =
     Wr RVLIB_SPIFLASH_REG_DATA 0x70 # replicate k (Wr RVLIB_SPIFLASH_REG_DATA 0x100) @
     [Rd RVLIB_SPIFLASH_REG_DATA r, Wr RVLIB_SPIFLASH_REG_SLAVESEL 0]"

text \<open>
  The bus accesses and clock reads of the rounds of the completion poll that go on: in each,
  a READ\_FLAGS transaction with \<open>k\<close> dummy requests that receives \<open>r\<close>, then the clock
  read \<open>t\<close>.
\<close>

definition poll_rounds :: "(nat \<times> 32 word \<times> 64 word) list \<Rightarrow> event list" where
  "poll_rounds qs = concat (map (\<lambda>(k, r, t). query_bus k r @ [Cyc t]) qs)"

text \<open>
  The controller is in order when it reports READ\_READY only while a byte that the driver
  has requested has not been dequeued yet. \<open>k\<close> counts the requested bytes not yet dequeued.
\<close>

fun in_order :: "nat \<Rightarrow> event list \<Rightarrow> bool" where
  "in_order k [] = True"
| "in_order k (Rd a v # es) =
     (if a = RVLIB_SPIFLASH_REG_STATUS
      then (if bit v RVLIB_SPIFLASH_BIT_STATUS_READRDY then 0 < k \<and> in_order k es
            else in_order k es)
      else if a = RVLIB_SPIFLASH_REG_DATA then in_order (k - 1) es
      else in_order k es)"
| "in_order k (Wr a v # es) =
     (if a = RVLIB_SPIFLASH_REG_DATA \<and> v = 0x100 then in_order (k + 1) es
      else in_order k es)"
| "in_order k (Cyc t # es) = in_order k es"

text \<open>A machine at the start of a run: the answers of the hardware, and no access made yet.\<close>

definition hw_of :: "32 word list \<Rightarrow> 64 word list \<Rightarrow> hw" where
  "hw_of rs cs = \<lparr>reads = rs, cycles = cs, trace = []\<rparr>"

text \<open>
  A transaction from \<open>h\<close> to \<open>h'\<close> whose last step is \<open>spi_end_transaction\<close>: \<open>ev\<close> is
  what it does before the final STATUS read, \<open>s\<close> is the value of that read, and the write
  of 0 to SLAVESEL is its last access.
\<close>

definition transaction :: "hw \<Rightarrow> hw \<Rightarrow> event list \<Rightarrow> 32 word \<Rightarrow> bool" where
  "transaction h h' ev s =
     (trace h' = trace h @ ev @
        [Rd RVLIB_SPIFLASH_REG_STATUS s, Wr RVLIB_SPIFLASH_REG_SLAVESEL 0] \<and>
      \<not> bit s RVLIB_SPIFLASH_BIT_STATUS_BUSY \<and> deselects ev = [] \<and> clock_reads ev = [])"

text \<open>
  A check of a trace: every write of 0 to SLAVESEL comes when the last STATUS read before
  it had BUSY clear. \<open>idle\<close> says whether the last STATUS read so far had BUSY clear.
\<close>

fun deselects_when_idle :: "bool \<Rightarrow> event list \<Rightarrow> bool" where
  "deselects_when_idle idle [] = True"
| "deselects_when_idle idle (Rd a v # es) =
     (if a = RVLIB_SPIFLASH_REG_STATUS
      then deselects_when_idle (\<not> bit v RVLIB_SPIFLASH_BIT_STATUS_BUSY) es
      else deselects_when_idle idle es)"
| "deselects_when_idle idle (Wr a v # es) =
     (if a = RVLIB_SPIFLASH_REG_SLAVESEL \<and> v = 0
      then idle \<and> deselects_when_idle idle es
      else deselects_when_idle idle es)"
| "deselects_when_idle idle (Cyc t # es) = deselects_when_idle idle es"

text \<open>
  A run from \<open>h\<close> to \<open>h'\<close> ends deselected when its last step is \<open>spi_end_transaction\<close>,
  its last two accesses are a STATUS read with BUSY clear and the write of 0 to SLAVESEL,
  nothing is written to SLAVESEL before that, and so every deselect of the run comes with
  BUSY last seen clear.
\<close>

definition ends_deselected :: "hw \<Rightarrow> hw \<Rightarrow> bool" where
  "ends_deselected h h' =
     (\<exists>hm ev s. spi_end_transaction hm = Some h' \<and> transaction h h' ev s \<and>
        deselects_when_idle False
          (ev @ [Rd RVLIB_SPIFLASH_REG_STATUS s, Wr RVLIB_SPIFLASH_REG_SLAVESEL 0]))"

text \<open>The command and data bytes written to DATA: what was sent, without the dummy requests.\<close>

definition commands :: "event list \<Rightarrow> 32 word list" where
  "commands tr = filter (\<lambda>v. v \<noteq> 0x100) (sent tr)"

text \<open>
  The state sequence that the spec gives for Page Program, steps (a) to (h): query the flag
  status and fail with "device busy" if READY is not set; clear flags; write enable;
  command, address and payload; poll for completion; "timeout" if still not READY; clear
  flags again and "failed" if the error flag is set; success otherwise. The command code,
  the error flag that is tested, the timeout and the payload are parameters.
\<close>

definition spec_write_sequence ::
  "8 word \<Rightarrow> nat \<Rightarrow> 32 word \<Rightarrow> 64 word \<Rightarrow> 32 word \<Rightarrow> (nat \<Rightarrow> 8 word) \<Rightarrow> nat \<Rightarrow> hw
     \<Rightarrow> (int \<times> hw) option" where
  "spec_write_sequence cmd error_bit timeout_us freq address data nbytes h = do {
     (buf, h1) \<leftarrow> spi_command_read SPIFLASH_CMD_READ_FLAGS (\<lambda>_. 0) 1 h;
     if \<not> bit (buf 0) SPIFLASH_BIT_FLAGS_READY
     then Some (RVLIB_SPIFLASH_ERR_NOTREADY, h1)
     else do {
       h2 \<leftarrow> spi_command_simple SPIFLASH_CMD_CLEAR_FLAGS h1;
       h3 \<leftarrow> spi_command_simple SPIFLASH_CMD_WRITE_ENABLE h2;
       h4 \<leftarrow> spi_command_addr_write cmd address data nbytes h3;
       (flags, h5) \<leftarrow> spiflash_poll_completion freq timeout_us h4;
       if \<not> bit flags SPIFLASH_BIT_FLAGS_READY
       then Some (RVLIB_SPIFLASH_ERR_TIMEOUT, h5)
       else if bit flags error_bit
       then do {
         h6 \<leftarrow> spi_command_simple SPIFLASH_CMD_CLEAR_FLAGS h5;
         Some (RVLIB_SPIFLASH_ERR_FAILED, h6)
       }
       else Some (0, h5)
     }
   }"

text \<open>The three address bytes of a command with address, most significant first.\<close>

definition address_bytes :: "32 word \<Rightarrow> 32 word list" where
  "address_bytes addr =
     [ucast (ucast (drop_bit 16 addr) :: 8 word), ucast (ucast (drop_bit 8 addr) :: 8 word),
      ucast (ucast addr :: 8 word)]"

text \<open>
  The result that the order NOT\_READY, TIMEOUT, FAILED gives, from the flag byte of the
  pre-flight query, the flag byte that the completion poll returns, and the error flag of
  the operation.
\<close>

definition result_in_order :: "nat \<Rightarrow> 8 word \<Rightarrow> 8 word \<Rightarrow> int" where
  "result_in_order error_bit preflight final =
     (if \<not> bit preflight SPIFLASH_BIT_FLAGS_READY then RVLIB_SPIFLASH_ERR_NOTREADY
      else if \<not> bit final SPIFLASH_BIT_FLAGS_READY then RVLIB_SPIFLASH_ERR_TIMEOUT
      else if bit final error_bit then RVLIB_SPIFLASH_ERR_FAILED
      else 0)"

text \<open>
  Answers of a controller for a run of a write-class operation: a pre-flight query that
  returns \<open>f1\<close>, the answers \<open>ws\<close> for the command with address and payload, and a
  completion poll whose single query returns \<open>f2\<close>, with the clock values \<open>cs\<close>. A
  transaction that sends one byte uses the answers 2 (CMD\_READY) and 0 (idle); a
  READ\_FLAGS query uses 2, 2, 4 (READ\_READY), the flag byte, and 0.
\<close>

definition flag_query :: "32 word \<Rightarrow> 32 word list" where
  "flag_query f = [2, 2, 4, f, 0]"

definition write_run :: "32 word \<Rightarrow> 32 word list \<Rightarrow> 32 word \<Rightarrow> 64 word list \<Rightarrow> hw" where
  "write_run f1 ws f2 cs =
     hw_of (flag_query f1 @ [2, 0] @ [2, 0] @ ws @ flag_query f2 @ [2, 0]) cs"


text \<open>
  The traces of the draining loop: rounds of a STATUS read, each followed by one DATA read
  when READ\_READY is set, and repeated when READ\_READY is clear and BUSY is set; the last
  access is a STATUS read with READ\_READY clear and BUSY clear.
\<close>

fun drained :: "event list \<Rightarrow> bool" where
  "drained (Rd a s # es) =
     (a = RVLIB_SPIFLASH_REG_STATUS \<and>
      (if bit s RVLIB_SPIFLASH_BIT_STATUS_READRDY
       then (case es of
               Rd a' d # es' \<Rightarrow> a' = RVLIB_SPIFLASH_REG_DATA \<and> drained es'
             | _ \<Rightarrow> False)
       else if \<not> bit s RVLIB_SPIFLASH_BIT_STATUS_BUSY then es = []
       else drained es))"
| "drained _ = False"

text \<open>
  Answers for a run of the initialisation: one byte left in the receive queue, one round
  with the controller busy, the three simple commands, and a poll that finds the device
  ready at once.
\<close>

definition init_run :: hw where
  "init_run = hw_of ([4, 0x55, 1, 0] @ [2, 0] @ [2, 0] @ [2, 0] @ flag_query 0x80) [0]"

section \<open>Properties\<close>

subsection \<open>Bit tests\<close>

lemma test_bit:
  "(w AND push_bit n 1 \<noteq> 0) = bit (w::'a::len word) n"
  "(w AND push_bit n 1 = 0) = (\<not> bit w n)"
  "(w AND 2 ^ n \<noteq> 0) = bit w n"
  "(w AND 2 ^ n = 0) = (\<not> bit w n)"
  by (simp_all add: bit_iff_and_push_bit_not_eq_0)

lemma flag_bit: "bit (ucast (f::8 word) :: 32 word) n = bit f n"
  by (auto simp add: bit_ucast_iff dest: bit_imp_le_length)

subsection \<open>What a trace shows\<close>

lemma reg_distinct [simp]:
  "RVLIB_SPIFLASH_REG_STATUS \<noteq> RVLIB_SPIFLASH_REG_DATA"
  "RVLIB_SPIFLASH_REG_DATA \<noteq> RVLIB_SPIFLASH_REG_STATUS"
  "RVLIB_SPIFLASH_REG_STATUS \<noteq> RVLIB_SPIFLASH_REG_SLAVESEL"
  "RVLIB_SPIFLASH_REG_SLAVESEL \<noteq> RVLIB_SPIFLASH_REG_STATUS"
  "RVLIB_SPIFLASH_REG_SLAVESEL \<noteq> RVLIB_SPIFLASH_REG_DATA"
  "RVLIB_SPIFLASH_REG_DATA \<noteq> RVLIB_SPIFLASH_REG_SLAVESEL"
  by (simp_all add: src_consts)

lemma received_simps [simp]:
  "received [] = []"
  "received (xs @ ys) = received xs @ received ys"
  "received (Rd a v # es) = (if a = RVLIB_SPIFLASH_REG_DATA then v # received es else received es)"
  "received (Wr a v # es) = received es"
  "received (Cyc t # es) = received es"
  "received (status_polls ss) = []"
  by (simp_all add: received_def status_polls_def)

lemma sent_simps [simp]:
  "sent [] = []"
  "sent (xs @ ys) = sent xs @ sent ys"
  "sent (Wr a v # es) = (if a = RVLIB_SPIFLASH_REG_DATA then v # sent es else sent es)"
  "sent (Rd a v # es) = sent es"
  "sent (Cyc t # es) = sent es"
  "sent (status_polls ss) = []"
  by (simp_all add: sent_def status_polls_def)

lemma deselects_simps [simp]:
  "deselects [] = []"
  "deselects (xs @ ys) = deselects xs @ deselects ys"
  "deselects (Wr a v # es) = (if a = RVLIB_SPIFLASH_REG_SLAVESEL then v # deselects es else deselects es)"
  "deselects (Rd a v # es) = deselects es"
  "deselects (Cyc t # es) = deselects es"
  "deselects (status_polls ss) = []"
  by (simp_all add: deselects_def status_polls_def)

lemma clock_reads_simps [simp]:
  "clock_reads [] = []"
  "clock_reads (xs @ ys) = clock_reads xs @ clock_reads ys"
  "clock_reads (Wr a v # es) = clock_reads es"
  "clock_reads (Rd a v # es) = clock_reads es"
  "clock_reads (Cyc t # es) = t # clock_reads es"
  "clock_reads (status_polls ss) = []"
  by (simp_all add: clock_reads_def status_polls_def)

lemma status_polls_simps [simp]:
  "status_polls [] = []"
  "status_polls (s # ss) = Rd RVLIB_SPIFLASH_REG_STATUS s # status_polls ss"
  "status_polls (ss @ ts) = status_polls ss @ status_polls ts"
  by (simp_all add: status_polls_def)

lemma bus_simps [simp]:
  "bus [] = []"
  "bus (xs @ ys) = bus xs @ bus ys"
  "bus (Rd a v # es) = (if a = RVLIB_SPIFLASH_REG_STATUS then bus es else Rd a v # bus es)"
  "bus (Wr a v # es) = Wr a v # bus es"
  "bus (Cyc t # es) = Cyc t # bus es"
  "bus (status_polls ss) = []"
  by (simp_all add: bus_def status_polls_def)

lemma poll_rounds_simps [simp]:
  "poll_rounds [] = []"
  "poll_rounds ((k, r, t) # qs) = query_bus k r @ Cyc t # poll_rounds qs"
  by (simp_all add: poll_rounds_def)

subsection \<open>Effects of the bus primitives\<close>

lemma read_reg_effect:
  "rvlib_hw_read_reg a h = Some (v, h1) \<Longrightarrow>
     reads h = v # reads h1 \<and> cycles h1 = cycles h \<and> trace h1 = trace h @ [Rd a v]"
  by (auto simp: rvlib_hw_read_reg_def split: list.splits)

lemma write_reg_effect [simp]:
  "reads (rvlib_hw_write_reg a v h) = reads h"
  "cycles (rvlib_hw_write_reg a v h) = cycles h"
  "trace (rvlib_hw_write_reg a v h) = trace h @ [Wr a v]"
  by (simp_all add: rvlib_hw_write_reg_def)

lemma cycle_counter_effect:
  "get_cycle_counter h = Some (t, h1) \<Longrightarrow>
     cycles h = t # cycles h1 \<and> reads h1 = reads h \<and> trace h1 = trace h @ [Cyc t]"
  by (auto simp: get_cycle_counter_def split: list.splits)

lemma send_byte_wait_effect:
  "spi_send_byte_wait h = Some h' \<Longrightarrow>
     \<exists>ss s. trace h' = trace h @ status_polls (ss @ [s]) \<and>
            bit s RVLIB_SPIFLASH_BIT_STATUS_CMDRDY \<and>
            list_all (\<lambda>x. \<not> bit x RVLIB_SPIFLASH_BIT_STATUS_CMDRDY) ss"
proof (induction h rule: spi_send_byte_wait.induct)
  case (1 h)
  note unf = spi_send_byte_wait.simps [of h]
  from "1.prems" obtain status h1 where
    rd: "rvlib_hw_read_reg RVLIB_SPIFLASH_REG_STATUS h = Some (status, h1)"
    by (auto simp: unf split: option.splits)
  note tr1 = read_reg_effect [OF rd]
  show ?case
  proof (cases "bit status RVLIB_SPIFLASH_BIT_STATUS_CMDRDY")
    case True
    with "1.prems" rd have "h' = h1" by (simp add: unf test_bit)
    with tr1 True have "trace h' = trace h @ status_polls ([] @ [status]) \<and>
            bit status RVLIB_SPIFLASH_BIT_STATUS_CMDRDY \<and>
            list_all (\<lambda>x. \<not> bit x RVLIB_SPIFLASH_BIT_STATUS_CMDRDY) []" by simp
    then show ?thesis by blast
  next
    case False
    with "1.prems" rd have run: "spi_send_byte_wait h1 = Some h'" by (simp add: unf test_bit)
    from False have "status AND push_bit RVLIB_SPIFLASH_BIT_STATUS_CMDRDY 1 = 0"
      by (simp add: test_bit)
    from "1.IH" [OF rd refl _ run] this obtain ss s where
      "trace h' = trace h1 @ status_polls (ss @ [s])"
      "bit s RVLIB_SPIFLASH_BIT_STATUS_CMDRDY"
      "list_all (\<lambda>x. \<not> bit x RVLIB_SPIFLASH_BIT_STATUS_CMDRDY) ss"
      by auto
    with tr1 False have "trace h' = trace h @ status_polls ((status # ss) @ [s]) \<and>
            bit s RVLIB_SPIFLASH_BIT_STATUS_CMDRDY \<and>
            list_all (\<lambda>x. \<not> bit x RVLIB_SPIFLASH_BIT_STATUS_CMDRDY) (status # ss)" by simp
    then show ?thesis by blast
  qed
qed

lemma send_byte_effect:
  "spi_send_byte b h = Some h' \<Longrightarrow>
     \<exists>ss. trace h' = trace h @ status_polls ss @ [Wr RVLIB_SPIFLASH_REG_DATA (ucast b)]"
proof -
  assume "spi_send_byte b h = Some h'"
  then obtain h1 where w: "spi_send_byte_wait h = Some h1"
    and h': "h' = rvlib_hw_write_reg RVLIB_SPIFLASH_REG_DATA (ucast b) h1"
    by (auto simp: spi_send_byte_def split: option.splits)
  from send_byte_wait_effect [OF w] obtain ss s where
    "trace h1 = trace h @ status_polls (ss @ [s])" by blast
  with h' have "trace h' = trace h @ status_polls (ss @ [s]) @
                  [Wr RVLIB_SPIFLASH_REG_DATA (ucast b)]" by simp
  then show ?thesis by blast
qed

lemma end_transaction_wait_effect:
  "spi_end_transaction_wait h = Some h' \<Longrightarrow>
     \<exists>ss s. trace h' = trace h @ status_polls (ss @ [s]) \<and>
            \<not> bit s RVLIB_SPIFLASH_BIT_STATUS_BUSY \<and>
            list_all (\<lambda>x. bit x RVLIB_SPIFLASH_BIT_STATUS_BUSY) ss"
proof (induction h rule: spi_end_transaction_wait.induct)
  case (1 h)
  note unf = spi_end_transaction_wait.simps [of h]
  from "1.prems" obtain status h1 where
    rd: "rvlib_hw_read_reg RVLIB_SPIFLASH_REG_STATUS h = Some (status, h1)"
    by (auto simp: unf split: option.splits)
  note tr1 = read_reg_effect [OF rd]
  show ?case
  proof (cases "bit status RVLIB_SPIFLASH_BIT_STATUS_BUSY")
    case False
    with "1.prems" rd have "h' = h1" by (simp add: unf test_bit)
    with tr1 False have "trace h' = trace h @ status_polls ([] @ [status]) \<and>
            \<not> bit status RVLIB_SPIFLASH_BIT_STATUS_BUSY \<and>
            list_all (\<lambda>x. bit x RVLIB_SPIFLASH_BIT_STATUS_BUSY) []" by simp
    then show ?thesis by blast
  next
    case True
    with "1.prems" rd have run: "spi_end_transaction_wait h1 = Some h'" by (simp add: unf test_bit)
    from True have "status AND push_bit RVLIB_SPIFLASH_BIT_STATUS_BUSY 1 \<noteq> 0"
      by (simp add: test_bit)
    from "1.IH" [OF rd refl this run] obtain ss s where
      "trace h' = trace h1 @ status_polls (ss @ [s])"
      "\<not> bit s RVLIB_SPIFLASH_BIT_STATUS_BUSY"
      "list_all (\<lambda>x. bit x RVLIB_SPIFLASH_BIT_STATUS_BUSY) ss"
      by auto
    with tr1 True have "trace h' = trace h @ status_polls ((status # ss) @ [s]) \<and>
            \<not> bit s RVLIB_SPIFLASH_BIT_STATUS_BUSY \<and>
            list_all (\<lambda>x. bit x RVLIB_SPIFLASH_BIT_STATUS_BUSY) (status # ss)" by simp
    then show ?thesis by blast
  qed
qed

lemma end_transaction_effect:
  "spi_end_transaction h = Some h' \<Longrightarrow>
     \<exists>ss s. trace h' = trace h @ status_polls ss @
                [Rd RVLIB_SPIFLASH_REG_STATUS s, Wr RVLIB_SPIFLASH_REG_SLAVESEL 0] \<and>
            \<not> bit s RVLIB_SPIFLASH_BIT_STATUS_BUSY \<and>
            list_all (\<lambda>x. bit x RVLIB_SPIFLASH_BIT_STATUS_BUSY) ss"
proof -
  assume "spi_end_transaction h = Some h'"
  then obtain h1 where w: "spi_end_transaction_wait h = Some h1"
    and h': "h' = rvlib_hw_write_reg RVLIB_SPIFLASH_REG_SLAVESEL 0 h1"
    by (auto simp: spi_end_transaction_def split: option.splits)
  from end_transaction_wait_effect [OF w] obtain ss s where
    "trace h1 = trace h @ status_polls (ss @ [s])"
    "\<not> bit s RVLIB_SPIFLASH_BIT_STATUS_BUSY"
    "list_all (\<lambda>x. bit x RVLIB_SPIFLASH_BIT_STATUS_BUSY) ss" by blast
  with h' have "trace h' = trace h @ status_polls ss @
                  [Rd RVLIB_SPIFLASH_REG_STATUS s, Wr RVLIB_SPIFLASH_REG_SLAVESEL 0] \<and>
                \<not> bit s RVLIB_SPIFLASH_BIT_STATUS_BUSY \<and>
                list_all (\<lambda>x. bit x RVLIB_SPIFLASH_BIT_STATUS_BUSY) ss" by simp
  then show ?thesis by blast
qed

lemma send_byte_bus:
  assumes "spi_send_byte b h = Some h'"
  shows "\<exists>ev. trace h' = trace h @ ev \<and> bus ev = [Wr RVLIB_SPIFLASH_REG_DATA (ucast b)]"
proof -
  from send_byte_effect [OF assms] obtain ss where
    "trace h' = trace h @ status_polls ss @ [Wr RVLIB_SPIFLASH_REG_DATA (ucast b)]" by blast
  then have "trace h' = trace h @ (status_polls ss @ [Wr RVLIB_SPIFLASH_REG_DATA (ucast b)]) \<and>
     bus (status_polls ss @ [Wr RVLIB_SPIFLASH_REG_DATA (ucast b)]) =
       [Wr RVLIB_SPIFLASH_REG_DATA (ucast b)]"
    by simp
  then show ?thesis by blast
qed

lemma end_transaction_bus:
  assumes "spi_end_transaction h = Some h'"
  shows "\<exists>ev. trace h' = trace h @ ev \<and> bus ev = [Wr RVLIB_SPIFLASH_REG_SLAVESEL 0]"
proof -
  from end_transaction_effect [OF assms] obtain ss s where
    "trace h' = trace h @ status_polls ss @
                [Rd RVLIB_SPIFLASH_REG_STATUS s, Wr RVLIB_SPIFLASH_REG_SLAVESEL 0]" by blast
  then have "trace h' = trace h @ (status_polls ss @
                [Rd RVLIB_SPIFLASH_REG_STATUS s, Wr RVLIB_SPIFLASH_REG_SLAVESEL 0]) \<and>
     bus (status_polls ss @
                [Rd RVLIB_SPIFLASH_REG_STATUS s, Wr RVLIB_SPIFLASH_REG_SLAVESEL 0]) =
       [Wr RVLIB_SPIFLASH_REG_SLAVESEL 0]"
    by simp
  then show ?thesis by blast
qed

subsection \<open>The loop of \<open>spi_read_bytes\<close>\<close>

text \<open>One round of the loop, as an induction rule: the result \<open>r\<close> of the run is that of the
  run from the state after the round.\<close>

lemma read_bytes_loop_induct [consumes 1, case_names exit skip capture]:
  assumes run: "spi_read_bytes_loop n p ncmd buf h = Some r"
    and exit: "\<And>n p ncmd buf h. \<not> p < n \<Longrightarrow> r = (p, ncmd, buf, h) \<Longrightarrow> P n p ncmd buf h"
    and skip: "\<And>n p ncmd buf h status h1 ncmd' h2.
        p < n \<Longrightarrow> rvlib_hw_read_reg RVLIB_SPIFLASH_REG_STATUS h = Some (status, h1) \<Longrightarrow>
        (ncmd', h2) = (if 0 < ncmd \<and> bit status RVLIB_SPIFLASH_BIT_STATUS_CMDRDY
                       then (ncmd - 1, rvlib_hw_write_reg RVLIB_SPIFLASH_REG_DATA 0x100 h1)
                       else (ncmd, h1)) \<Longrightarrow>
        \<not> bit status RVLIB_SPIFLASH_BIT_STATUS_READRDY \<Longrightarrow>
        spi_read_bytes_loop n p ncmd' buf h2 = Some r \<Longrightarrow>
        P n p ncmd' buf h2 \<Longrightarrow> P n p ncmd buf h"
    and capture: "\<And>n p ncmd buf h status h1 ncmd' h2 data h3.
        p < n \<Longrightarrow> rvlib_hw_read_reg RVLIB_SPIFLASH_REG_STATUS h = Some (status, h1) \<Longrightarrow>
        (ncmd', h2) = (if 0 < ncmd \<and> bit status RVLIB_SPIFLASH_BIT_STATUS_CMDRDY
                       then (ncmd - 1, rvlib_hw_write_reg RVLIB_SPIFLASH_REG_DATA 0x100 h1)
                       else (ncmd, h1)) \<Longrightarrow>
        bit status RVLIB_SPIFLASH_BIT_STATUS_READRDY \<Longrightarrow>
        rvlib_hw_read_reg RVLIB_SPIFLASH_REG_DATA h2 = Some (data, h3) \<Longrightarrow>
        spi_read_bytes_loop n (p + 1) ncmd' (buf(p := ucast data)) h3 = Some r \<Longrightarrow>
        P n (p + 1) ncmd' (buf(p := ucast data)) h3 \<Longrightarrow> P n p ncmd buf h"
  shows "P n p ncmd buf h"
  using run
proof (induction n p ncmd buf h rule: spi_read_bytes_loop.induct)
  case (1 nbytes p ncmd buf h)
  note unf = spi_read_bytes_loop.simps [of nbytes p ncmd buf h]
  show ?case
  proof (cases "p < nbytes")
    case False
    with "1.prems" show ?thesis by (auto simp: unf intro: exit)
  next
    case True
    with "1.prems" obtain status h1 where
      rd: "rvlib_hw_read_reg RVLIB_SPIFLASH_REG_STATUS h = Some (status, h1)"
      by (auto simp: unf split: option.splits)
    define st where "st = (if ncmd > 0 then
        (if status AND push_bit RVLIB_SPIFLASH_BIT_STATUS_CMDRDY 1 \<noteq> 0
         then (ncmd - 1, rvlib_hw_write_reg RVLIB_SPIFLASH_REG_DATA 0x100 h1)
         else (ncmd, h1))
      else (ncmd, h1))"
    obtain ncmd' h2 where st: "st = (ncmd', h2)" by (cases st)
    have st': "(ncmd', h2) = (if 0 < ncmd \<and> bit status RVLIB_SPIFLASH_BIT_STATUS_CMDRDY
                       then (ncmd - 1, rvlib_hw_write_reg RVLIB_SPIFLASH_REG_DATA 0x100 h1)
                       else (ncmd, h1))"
      using st by (auto simp: st_def test_bit split: if_splits)
    show ?thesis
    proof (cases "bit status RVLIB_SPIFLASH_BIT_STATUS_READRDY")
      case rr: True
      then have rr': "status AND push_bit RVLIB_SPIFLASH_BIT_STATUS_READRDY 1 \<noteq> 0"
        by (simp add: test_bit)
      with "1.prems" True rd st obtain data h3 where
        rd2: "rvlib_hw_read_reg RVLIB_SPIFLASH_REG_DATA h2 = Some (data, h3)"
        and rest: "spi_read_bytes_loop nbytes (p + 1) ncmd' (buf(p := ucast data)) h3 = Some r"
        by (auto simp: unf st_def split: option.splits)
      from "1.IH"(1) [OF True rd refl st [unfolded st_def, symmetric] rr' rd2 refl rest]
      show ?thesis by (rule capture [OF True rd st' rr rd2 rest])
    next
      case nr: False
      then have nr': "\<not> status AND push_bit RVLIB_SPIFLASH_BIT_STATUS_READRDY 1 \<noteq> 0"
        by (simp add: test_bit)
      with "1.prems" True rd st have
        rest: "spi_read_bytes_loop nbytes p ncmd' buf h2 = Some r"
        by (auto simp: unf st_def split: option.splits)
      from "1.IH"(2) [OF True rd refl st [unfolded st_def, symmetric] nr' rest]
      show ?thesis by (rule skip [OF True rd st' nr rest])
    qed
  qed
qed

lemma read_bytes_loop_effect:
  assumes "spi_read_bytes_loop n p ncmd buf h = Some (p', ncmd', buf', h')" and "p \<le> n"
  shows "\<exists>ev. trace h' = trace h @ ev \<and> p' = n \<and> ncmd' \<le> ncmd \<and>
           sent ev = replicate (ncmd - ncmd') 0x100 \<and>
           length (received ev) = n - p \<and>
           (\<forall>i. buf' i = (if p \<le> i \<and> i < n then ucast (received ev ! (i - p)) else buf i)) \<and>
           deselects ev = [] \<and> clock_reads ev = [] \<and>
           (\<forall>k. in_order k ev \<longrightarrow> p + k + ncmd = n \<longrightarrow> ncmd' = 0)"
  using assms
proof (induction rule: read_bytes_loop_induct)
  case (exit n p ncmd buf h)
  then have "trace h' = trace h @ [] \<and> p' = n \<and> ncmd' \<le> ncmd \<and>
           sent [] = replicate (ncmd - ncmd') 0x100 \<and>
           length (received []) = n - p \<and>
           (\<forall>i. buf' i = (if p \<le> i \<and> i < n then ucast (received [] ! (i - p)) else buf i)) \<and>
           deselects [] = [] \<and> clock_reads [] = [] \<and>
           (\<forall>k. in_order k [] \<longrightarrow> p + k + ncmd = n \<longrightarrow> ncmd' = 0)"
    by auto
  then show ?case by blast
next
  case (skip n p ncmd buf h status h1 ncmd1 h2)
  from skip.IH skip.prems obtain ev where ev:
    "trace h' = trace h2 @ ev" "p' = n" "ncmd' \<le> ncmd1"
    "sent ev = replicate (ncmd1 - ncmd') 0x100"
    "length (received ev) = n - p"
    "\<forall>i. buf' i = (if p \<le> i \<and> i < n then ucast (received ev ! (i - p)) else buf i)"
    "deselects ev = []" "clock_reads ev = []"
    "\<forall>k. in_order k ev \<longrightarrow> p + k + ncmd1 = n \<longrightarrow> ncmd' = 0"
    by blast
  note t1 = read_reg_effect [OF skip.hyps(2)]
  show ?case
  proof (cases "0 < ncmd \<and> bit status RVLIB_SPIFLASH_BIT_STATUS_CMDRDY")
    case True
    with skip.hyps(3) have s: "ncmd1 = ncmd - 1"
      "h2 = rvlib_hw_write_reg RVLIB_SPIFLASH_REG_DATA 0x100 h1" by simp_all
    let ?ev = "Rd RVLIB_SPIFLASH_REG_STATUS status # Wr RVLIB_SPIFLASH_REG_DATA 0x100 # ev"
    have "ncmd - ncmd' = Suc (ncmd1 - ncmd')" using ev(3) s True by arith
    then have "sent ?ev = replicate (ncmd - ncmd') 0x100"
      using ev(4) by simp
    moreover have "\<forall>k. in_order k ?ev \<longrightarrow> p + k + ncmd = n \<longrightarrow> ncmd' = 0"
      using ev(9) s True skip.hyps(4) by (auto split: if_splits)
    ultimately have "trace h' = trace h @ ?ev \<and> p' = n \<and> ncmd' \<le> ncmd \<and>
           sent ?ev = replicate (ncmd - ncmd') 0x100 \<and>
           length (received ?ev) = n - p \<and>
           (\<forall>i. buf' i = (if p \<le> i \<and> i < n then ucast (received ?ev ! (i - p)) else buf i)) \<and>
           deselects ?ev = [] \<and> clock_reads ?ev = [] \<and>
           (\<forall>k. in_order k ?ev \<longrightarrow> p + k + ncmd = n \<longrightarrow> ncmd' = 0)"
      using ev s t1 by simp
    then show ?thesis by blast
  next
    case False
    with skip.hyps(3) have s: "ncmd1 = ncmd" "h2 = h1" by auto
    let ?ev = "Rd RVLIB_SPIFLASH_REG_STATUS status # ev"
    have "\<forall>k. in_order k ?ev \<longrightarrow> p + k + ncmd = n \<longrightarrow> ncmd' = 0"
      using ev(9) s skip.hyps(4) by (auto split: if_splits)
    then have "trace h' = trace h @ ?ev \<and> p' = n \<and> ncmd' \<le> ncmd \<and>
           sent ?ev = replicate (ncmd - ncmd') 0x100 \<and>
           length (received ?ev) = n - p \<and>
           (\<forall>i. buf' i = (if p \<le> i \<and> i < n then ucast (received ?ev ! (i - p)) else buf i)) \<and>
           deselects ?ev = [] \<and> clock_reads ?ev = [] \<and>
           (\<forall>k. in_order k ?ev \<longrightarrow> p + k + ncmd = n \<longrightarrow> ncmd' = 0)"
      using ev s t1 by simp
    then show ?thesis by blast
  qed
next
  case (capture n p ncmd buf h status h1 ncmd1 h2 data h3)
  from capture.hyps(1) have "p + 1 \<le> n" by simp
  from capture.IH [OF this] obtain ev where ev:
    "trace h' = trace h3 @ ev" "p' = n" "ncmd' \<le> ncmd1"
    "sent ev = replicate (ncmd1 - ncmd') 0x100"
    "length (received ev) = n - (p + 1)"
    "\<forall>i. buf' i = (if p + 1 \<le> i \<and> i < n then ucast (received ev ! (i - (p + 1)))
                    else (buf(p := ucast data)) i)"
    "deselects ev = []" "clock_reads ev = []"
    "\<forall>k. in_order k ev \<longrightarrow> p + 1 + k + ncmd1 = n \<longrightarrow> ncmd' = 0"
    by blast
  note t1 = read_reg_effect [OF capture.hyps(2)]
  note t3 = read_reg_effect [OF capture.hyps(5)]
  have bufs: "\<forall>i. buf' i = (if p \<le> i \<and> i < n then ucast ((data # received ev) ! (i - p)) else buf i)"
  proof
    fix i
    show "buf' i = (if p \<le> i \<and> i < n then ucast ((data # received ev) ! (i - p)) else buf i)"
    proof (cases "i = p")
      case True
      with ev(6) capture.hyps(1) show ?thesis by simp
    next
      case False
      then have "p \<le> i \<Longrightarrow> i - p = Suc (i - (p + 1))" by simp
      with False ev(6) show ?thesis by (auto simp: le_Suc_eq)
    qed
  qed
  show ?case
  proof (cases "0 < ncmd \<and> bit status RVLIB_SPIFLASH_BIT_STATUS_CMDRDY")
    case True
    with capture.hyps(3) have s: "ncmd1 = ncmd - 1"
      "h2 = rvlib_hw_write_reg RVLIB_SPIFLASH_REG_DATA 0x100 h1" by simp_all
    let ?ev = "Rd RVLIB_SPIFLASH_REG_STATUS status # Wr RVLIB_SPIFLASH_REG_DATA 0x100 #
               Rd RVLIB_SPIFLASH_REG_DATA data # ev"
    have "ncmd - ncmd' = Suc (ncmd1 - ncmd')" using ev(3) s True by arith
    then have "sent ?ev = replicate (ncmd - ncmd') 0x100"
      using ev(4) by simp
    moreover have "\<forall>k. in_order k ?ev \<longrightarrow> p + k + ncmd = n \<longrightarrow> ncmd' = 0"
    proof (intro allI impI)
      fix k assume io: "in_order k ?ev" and sum: "p + k + ncmd = n"
      from io capture.hyps(4) have "0 < k" "in_order k ev" by simp_all
      moreover from sum s True \<open>0 < k\<close> have "p + 1 + k + ncmd1 = n" by simp
      ultimately show "ncmd' = 0" using ev(9) by blast
    qed
    moreover have "length (received ?ev) = n - p" using ev(5) capture.hyps(1) by simp
    ultimately have "trace h' = trace h @ ?ev \<and> p' = n \<and> ncmd' \<le> ncmd \<and>
           sent ?ev = replicate (ncmd - ncmd') 0x100 \<and>
           length (received ?ev) = n - p \<and>
           (\<forall>i. buf' i = (if p \<le> i \<and> i < n then ucast (received ?ev ! (i - p)) else buf i)) \<and>
           deselects ?ev = [] \<and> clock_reads ?ev = [] \<and>
           (\<forall>k. in_order k ?ev \<longrightarrow> p + k + ncmd = n \<longrightarrow> ncmd' = 0)"
      using ev(1-3,7,8) s t1 t3 bufs by simp
    then show ?thesis by blast
  next
    case False
    with capture.hyps(3) have s: "ncmd1 = ncmd" "h2 = h1" by auto
    let ?ev = "Rd RVLIB_SPIFLASH_REG_STATUS status # Rd RVLIB_SPIFLASH_REG_DATA data # ev"
    have "\<forall>k. in_order k ?ev \<longrightarrow> p + k + ncmd = n \<longrightarrow> ncmd' = 0"
    proof (intro allI impI)
      fix k assume io: "in_order k ?ev" and sum: "p + k + ncmd = n"
      from io capture.hyps(4) have "0 < k" "in_order (k - 1) ev" by simp_all
      moreover from sum s \<open>0 < k\<close> have "p + 1 + (k - 1) + ncmd1 = n" by simp
      ultimately show "ncmd' = 0" using ev(9) by blast
    qed
    moreover have "length (received ?ev) = n - p" using ev(5) capture.hyps(1) by simp
    ultimately have "trace h' = trace h @ ?ev \<and> p' = n \<and> ncmd' \<le> ncmd \<and>
           sent ?ev = replicate (ncmd - ncmd') 0x100 \<and>
           length (received ?ev) = n - p \<and>
           (\<forall>i. buf' i = (if p \<le> i \<and> i < n then ucast (received ?ev ! (i - p)) else buf i)) \<and>
           deselects ?ev = [] \<and> clock_reads ?ev = [] \<and>
           (\<forall>k. in_order k ?ev \<longrightarrow> p + k + ncmd = n \<longrightarrow> ncmd' = 0)"
      using ev(1-4,7,8) s t1 t3 bufs by simp
    then show ?thesis by blast
  qed
qed

text \<open>Reading one byte: at most \<open>ncmd\<close> dummy requests, then the byte; the capture is last.\<close>

lemma read_last_byte_bus:
  assumes "spi_read_bytes_loop n p ncmd buf h = Some (p', ncmd', buf', h')" and "n = p + 1"
  shows "\<exists>ev k r. trace h' = trace h @ ev \<and> k \<le> ncmd \<and>
           bus ev = replicate k (Wr RVLIB_SPIFLASH_REG_DATA 0x100) @
                    [Rd RVLIB_SPIFLASH_REG_DATA r] \<and>
           buf' p = ucast r"
  using assms
proof (induction rule: read_bytes_loop_induct)
  case (exit n p ncmd buf h)
  then show ?case by simp
next
  case (skip n p ncmd buf h status h1 ncmd1 h2)
  from skip.IH [OF skip.prems] obtain ev k r where ev:
    "trace h' = trace h2 @ ev" "k \<le> ncmd1"
    "bus ev = replicate k (Wr RVLIB_SPIFLASH_REG_DATA 0x100) @ [Rd RVLIB_SPIFLASH_REG_DATA r]"
    "buf' p = ucast r" by blast
  note t1 = read_reg_effect [OF skip.hyps(2)]
  show ?case
  proof (cases "0 < ncmd \<and> bit status RVLIB_SPIFLASH_BIT_STATUS_CMDRDY")
    case True
    with skip.hyps(3) have s: "ncmd1 = ncmd - 1"
      "h2 = rvlib_hw_write_reg RVLIB_SPIFLASH_REG_DATA 0x100 h1" by simp_all
    let ?ev = "Rd RVLIB_SPIFLASH_REG_STATUS status # Wr RVLIB_SPIFLASH_REG_DATA 0x100 # ev"
    from ev(2) s(1) True have "Suc k \<le> ncmd" by arith
    then have "trace h' = trace h @ ?ev \<and> Suc k \<le> ncmd \<and>
           bus ?ev = replicate (Suc k) (Wr RVLIB_SPIFLASH_REG_DATA 0x100) @
                    [Rd RVLIB_SPIFLASH_REG_DATA r] \<and>
           buf' p = ucast r"
      using ev s t1 True by simp
    then show ?thesis by blast
  next
    case False
    with skip.hyps(3) have s: "ncmd1 = ncmd" "h2 = h1" by auto
    let ?ev = "Rd RVLIB_SPIFLASH_REG_STATUS status # ev"
    have "trace h' = trace h @ ?ev \<and> k \<le> ncmd \<and>
           bus ?ev = replicate k (Wr RVLIB_SPIFLASH_REG_DATA 0x100) @
                    [Rd RVLIB_SPIFLASH_REG_DATA r] \<and>
           buf' p = ucast r"
      using ev s t1 by simp
    then show ?thesis by blast
  qed
next
  case (capture n p ncmd buf h status h1 ncmd1 h2 data h3)
  from capture.hyps(6) capture.prems have fin: "h' = h3" "buf' = buf(p := ucast data)"
    by (simp_all add: spi_read_bytes_loop.simps [of "Suc p" "Suc p"])
  note t1 = read_reg_effect [OF capture.hyps(2)]
  note t3 = read_reg_effect [OF capture.hyps(5)]
  show ?case
  proof (cases "0 < ncmd \<and> bit status RVLIB_SPIFLASH_BIT_STATUS_CMDRDY")
    case True
    with capture.hyps(3) have s: "ncmd1 = ncmd - 1"
      "h2 = rvlib_hw_write_reg RVLIB_SPIFLASH_REG_DATA 0x100 h1" by simp_all
    let ?ev = "[Rd RVLIB_SPIFLASH_REG_STATUS status, Wr RVLIB_SPIFLASH_REG_DATA 0x100,
                Rd RVLIB_SPIFLASH_REG_DATA data]"
    have "trace h' = trace h @ ?ev \<and> Suc 0 \<le> ncmd \<and>
           bus ?ev = replicate (Suc 0) (Wr RVLIB_SPIFLASH_REG_DATA 0x100) @
                    [Rd RVLIB_SPIFLASH_REG_DATA data] \<and>
           buf' p = ucast data"
      using fin s t1 t3 True by simp
    then show ?thesis by blast
  next
    case False
    with capture.hyps(3) have s: "ncmd1 = ncmd" "h2 = h1" by auto
    let ?ev = "[Rd RVLIB_SPIFLASH_REG_STATUS status, Rd RVLIB_SPIFLASH_REG_DATA data]"
    have "trace h' = trace h @ ?ev \<and> 0 \<le> ncmd \<and>
           bus ?ev = replicate 0 (Wr RVLIB_SPIFLASH_REG_DATA 0x100) @
                    [Rd RVLIB_SPIFLASH_REG_DATA data] \<and>
           buf' p = ucast data"
      using fin s t1 t3 by simp
    then show ?thesis by blast
  qed
qed

subsection \<open>Concrete runs\<close>

lemmas run_simps =
  hw_of_def rvlib_hw_read_reg_def rvlib_hw_write_reg_def get_cycle_counter_def
  spi_send_byte_wait.simps spi_send_byte_def spi_read_bytes_loop.simps spi_read_bytes_def
  spi_end_transaction_wait.simps spi_end_transaction_def

text \<open>
  The loop returns, for every length, with a controller that answers each round in turn:
  CMD\_READY to the first STATUS read, READ\_READY to the second, and then the byte. Such a
  controller is in order.
\<close>

lemma read_bytes_loop_returns:
  "spi_read_bytes_loop (p + length ds) p (length ds) buf
     \<lparr>reads = concat (map (\<lambda>d. [2, 4, d]) ds) @ rest, cycles = cs, trace = tr\<rparr> =
   Some (p + length ds, 0,
         (\<lambda>i. if p \<le> i \<and> i < p + length ds then ucast (ds ! (i - p)) else buf i),
         \<lparr>reads = rest, cycles = cs,
          trace = tr @ concat (map (\<lambda>d. [Rd RVLIB_SPIFLASH_REG_STATUS 2,
                                         Wr RVLIB_SPIFLASH_REG_DATA 0x100,
                                         Rd RVLIB_SPIFLASH_REG_STATUS 4,
                                         Rd RVLIB_SPIFLASH_REG_DATA d]) ds)\<rparr>)"
proof (induction ds arbitrary: p buf tr)
  case Nil
  have "(\<lambda>i. if p \<le> i \<and> i < p then ucast (([]::32 word list) ! (i - p)) else buf i) = buf"
    by (rule ext) auto
  then show ?case by (simp add: spi_read_bytes_loop.simps [of p p])
next
  case (Cons d ds)
  let ?n = "p + length (d # ds)"
  have n: "?n = (p + 1) + length ds" by simp
  have buf: "(\<lambda>i. if p + 1 \<le> i \<and> i < p + 1 + length ds then ucast (ds ! (i - (p + 1)))
                 else (buf(p := ucast d)) i) =
             (\<lambda>i. if p \<le> i \<and> i < ?n then ucast ((d # ds) ! (i - p)) else buf i)"
    by (rule ext) (auto simp: nth_Cons' Suc_diff_Suc)
  have "spi_read_bytes_loop ?n p (length (d # ds)) buf
     \<lparr>reads = concat (map (\<lambda>d. [2, 4, d]) (d # ds)) @ rest, cycles = cs, trace = tr\<rparr> =
     spi_read_bytes_loop ?n p (length ds) buf
     \<lparr>reads = 4 # d # concat (map (\<lambda>d. [2, 4, d]) ds) @ rest, cycles = cs,
      trace = tr @ [Rd RVLIB_SPIFLASH_REG_STATUS 2, Wr RVLIB_SPIFLASH_REG_DATA 0x100]\<rparr>"
    by (subst spi_read_bytes_loop.simps)
       (simp add: rvlib_hw_read_reg_def rvlib_hw_write_reg_def
          RVLIB_SPIFLASH_BIT_STATUS_CMDRDY_def RVLIB_SPIFLASH_BIT_STATUS_READRDY_def)
  also have "\<dots> = spi_read_bytes_loop ?n (p + 1) (length ds) (buf(p := ucast d))
     \<lparr>reads = concat (map (\<lambda>d. [2, 4, d]) ds) @ rest, cycles = cs,
      trace = tr @ [Rd RVLIB_SPIFLASH_REG_STATUS 2, Wr RVLIB_SPIFLASH_REG_DATA 0x100,
                    Rd RVLIB_SPIFLASH_REG_STATUS 4, Rd RVLIB_SPIFLASH_REG_DATA d]\<rparr>"
    by (subst spi_read_bytes_loop.simps)
       (simp add: rvlib_hw_read_reg_def rvlib_hw_write_reg_def
          RVLIB_SPIFLASH_BIT_STATUS_CMDRDY_def RVLIB_SPIFLASH_BIT_STATUS_READRDY_def)
  also have "\<dots> = Some (?n, 0,
         (\<lambda>i. if p \<le> i \<and> i < ?n then ucast ((d # ds) ! (i - p)) else buf i),
         \<lparr>reads = rest, cycles = cs,
          trace = tr @ concat (map (\<lambda>d. [Rd RVLIB_SPIFLASH_REG_STATUS 2,
                                         Wr RVLIB_SPIFLASH_REG_DATA 0x100,
                                         Rd RVLIB_SPIFLASH_REG_STATUS 4,
                                         Rd RVLIB_SPIFLASH_REG_DATA d]) (d # ds))\<rparr>)"
  proof -
    let ?tr = "tr @ [Rd RVLIB_SPIFLASH_REG_STATUS 2, Wr RVLIB_SPIFLASH_REG_DATA 0x100,
                     Rd RVLIB_SPIFLASH_REG_STATUS 4, Rd RVLIB_SPIFLASH_REG_DATA d]"
    note ih = Cons.IH [of "p + 1" "buf(p := ucast d)" ?tr]
    have tr: "?tr @ concat (map (\<lambda>d. [Rd RVLIB_SPIFLASH_REG_STATUS 2,
                                         Wr RVLIB_SPIFLASH_REG_DATA 0x100,
                                         Rd RVLIB_SPIFLASH_REG_STATUS 4,
                                         Rd RVLIB_SPIFLASH_REG_DATA d]) ds) =
              tr @ concat (map (\<lambda>d. [Rd RVLIB_SPIFLASH_REG_STATUS 2,
                                         Wr RVLIB_SPIFLASH_REG_DATA 0x100,
                                         Rd RVLIB_SPIFLASH_REG_STATUS 4,
                                         Rd RVLIB_SPIFLASH_REG_DATA d]) (d # ds))"
      by simp
    show ?thesis using ih unfolding buf tr n .
  qed
  finally show ?case .
qed

lemma responsive_in_order:
  "in_order k (concat (map (\<lambda>d. [Rd RVLIB_SPIFLASH_REG_STATUS 2,
                                   Wr RVLIB_SPIFLASH_REG_DATA 0x100,
                                   Rd RVLIB_SPIFLASH_REG_STATUS 4,
                                   Rd RVLIB_SPIFLASH_REG_DATA d]) ds))"
  by (induction ds arbitrary: k) (simp_all add: RVLIB_SPIFLASH_BIT_STATUS_READRDY_def)

lemma spi_read_bytes_returns:
  "spi_read_bytes buf (length ds) (hw_of (concat (map (\<lambda>d. [2, 4, d]) ds)) cs) =
     Some ((\<lambda>i. if i < length ds then ucast (ds ! i) else buf i),
           \<lparr>reads = [], cycles = cs,
            trace = concat (map (\<lambda>d. [Rd RVLIB_SPIFLASH_REG_STATUS 2,
                                      Wr RVLIB_SPIFLASH_REG_DATA 0x100,
                                      Rd RVLIB_SPIFLASH_REG_STATUS 4,
                                      Rd RVLIB_SPIFLASH_REG_DATA d]) ds)\<rparr>)"
  using read_bytes_loop_returns [of 0 ds buf "[]" cs "[]"]
  by (simp add: spi_read_bytes_def hw_of_def cong: if_cong)

text \<open>
  C1. The controller is in order when it reports READ\_READY only while a byte that the
  driver has requested has not been dequeued yet; the receive queue is then empty when
  \<open>spi_read_bytes\<close> is entered, which is the state in which the driver calls it
  (\<open>rvlib_spiflash_init\<close> drains the queue, and every transaction dequeues the bytes it
  requested). With a controller in order, whatever the interleaving of CMD\_READY and
  READ\_READY in the STATUS values, when the loop of \<open>spi_read_bytes(buf, n)\<close> exits the
  count \<open>p\<close> of captured bytes is \<open>n\<close> and \<open>ncmd\<close> is 0: the writes to DATA are
  exactly \<open>n\<close> dummy requests 0x100, exactly \<open>n\<close> bytes have been read from DATA, and
  \<open>buf[0..n-1]\<close> holds their low 8 bits in order. Without the condition on the
  controller the loop still exits at \<open>p = n\<close> with \<open>n\<close> bytes captured, and has made
  \<open>n - ncmd\<close> dummy requests. \<open>spi_read_bytes\<close> returns exactly when the loop does. For
  every length it returns with a controller that answers each round in turn (CMD\_READY to
  the first STATUS read, READ\_READY to the second, then the byte), and that controller is
  in order.
\<close>

theorem spi_read_bytes_counts:
  "(spi_read_bytes_loop n 0 n buf h = Some (p, ncmd, buf', h') \<longrightarrow>
    trace h' = trace h @ ev \<longrightarrow> in_order 0 ev \<longrightarrow>
      spi_read_bytes buf n h = Some (buf', h') \<and> p = n \<and> ncmd = 0 \<and>
      sent ev = replicate n 0x100 \<and> length (received ev) = n \<and>
      map buf' [0..<n] = map ucast (received ev)) \<and>
   (spi_read_bytes_loop n 0 n buf h = Some (p, ncmd, buf', h') \<longrightarrow>
      spi_read_bytes buf n h = Some (buf', h') \<and>
      (\<exists>ev. trace h' = trace h @ ev \<and> p = n \<and>
         length (received ev) = n \<and> map buf' [0..<n] = map ucast (received ev) \<and>
         sent ev = replicate (n - ncmd) 0x100 \<and> ncmd \<le> n)) \<and>
   (spi_read_bytes buf n h = Some (buf', h') \<longleftrightarrow>
      (\<exists>p ncmd. spi_read_bytes_loop n 0 n buf h = Some (p, ncmd, buf', h'))) \<and>
   spi_read_bytes buf (length ds) (hw_of (concat (map (\<lambda>d. [2, 4, d]) ds)) cs) =
     Some ((\<lambda>i. if i < length ds then ucast (ds ! i) else buf i),
           \<lparr>reads = [], cycles = cs,
            trace = concat (map (\<lambda>d. [Rd RVLIB_SPIFLASH_REG_STATUS 2,
                                      Wr RVLIB_SPIFLASH_REG_DATA 0x100,
                                      Rd RVLIB_SPIFLASH_REG_STATUS 4,
                                      Rd RVLIB_SPIFLASH_REG_DATA d]) ds)\<rparr>) \<and>
   in_order 0 (concat (map (\<lambda>d. [Rd RVLIB_SPIFLASH_REG_STATUS 2,
                                  Wr RVLIB_SPIFLASH_REG_DATA 0x100,
                                  Rd RVLIB_SPIFLASH_REG_STATUS 4,
                                  Rd RVLIB_SPIFLASH_REG_DATA d]) ds))"
proof (intro conjI impI)
  assume run: "spi_read_bytes_loop n 0 n buf h = Some (p, ncmd, buf', h')"
  from read_bytes_loop_effect [OF run] obtain ev' where ev:
    "trace h' = trace h @ ev'" "p = n" "ncmd \<le> n"
    "sent ev' = replicate (n - ncmd) 0x100"
    "length (received ev') = n - 0"
    "\<forall>i. buf' i = (if 0 \<le> i \<and> i < n then ucast (received ev' ! (i - 0)) else buf i)"
    "\<forall>k. in_order k ev' \<longrightarrow> 0 + k + n = n \<longrightarrow> ncmd = 0"
    by auto
  have m: "map buf' [0..<n] = map ucast (received ev')"
    using ev(5,6) by (auto simp: list_eq_iff_nth_eq)
  show r: "spi_read_bytes buf n h = Some (buf', h')"
    using run by (simp add: spi_read_bytes_def)
  show "spi_read_bytes buf n h = Some (buf', h')" by (rule r)
  show "\<exists>ev. trace h' = trace h @ ev \<and> p = n \<and>
         length (received ev) = n \<and> map buf' [0..<n] = map ucast (received ev) \<and>
         sent ev = replicate (n - ncmd) 0x100 \<and> ncmd \<le> n"
    using ev(1-5) m by auto
  assume tr: "trace h' = trace h @ ev" and io: "in_order 0 ev"
  from tr ev(1) have same: "ev' = ev" by simp
  from io ev(7) same have z: "ncmd = 0" by auto
  show "p = n" by (rule ev(2))
  show "ncmd = 0" by (rule z)
  show "sent ev = replicate n 0x100" using ev(4) z same by simp
  show "length (received ev) = n" using ev(5) same by simp
  show "map buf' [0..<n] = map ucast (received ev)" using m same by simp
next
  show "spi_read_bytes buf n h = Some (buf', h') \<longleftrightarrow>
      (\<exists>p ncmd. spi_read_bytes_loop n 0 n buf h = Some (p, ncmd, buf', h'))"
    by (auto simp: spi_read_bytes_def split: option.splits)
next
  show "spi_read_bytes buf (length ds) (hw_of (concat (map (\<lambda>d. [2, 4, d]) ds)) cs) =
     Some ((\<lambda>i. if i < length ds then ucast (ds ! i) else buf i),
           \<lparr>reads = [], cycles = cs,
            trace = concat (map (\<lambda>d. [Rd RVLIB_SPIFLASH_REG_STATUS 2,
                                      Wr RVLIB_SPIFLASH_REG_DATA 0x100,
                                      Rd RVLIB_SPIFLASH_REG_STATUS 4,
                                      Rd RVLIB_SPIFLASH_REG_DATA d]) ds)\<rparr>)"
    by (rule spi_read_bytes_returns)
next
  show "in_order 0 (concat (map (\<lambda>d. [Rd RVLIB_SPIFLASH_REG_STATUS 2,
                                  Wr RVLIB_SPIFLASH_REG_DATA 0x100,
                                  Rd RVLIB_SPIFLASH_REG_STATUS 4,
                                  Rd RVLIB_SPIFLASH_REG_DATA d]) ds))"
    by (rule responsive_in_order)
qed

theorem spi_read_bytes_counts_witness:
  "spi_read_bytes (\<lambda>_. 0) 2 (hw_of [2, 6, 0x11, 4, 0x22] []) =
     Some ((\<lambda>_. 0)(0 := 0x11, 1 := 0x22),
           \<lparr>reads = [], cycles = [],
            trace = [Rd 0 2, Wr 8 0x100, Rd 0 6, Wr 8 0x100, Rd 8 0x11, Rd 0 4, Rd 8 0x22]\<rparr>) \<and>
   in_order 0 [Rd 0 2, Wr 8 0x100, Rd 0 6, Wr 8 0x100, Rd 8 0x11, Rd 0 4, Rd 8 0x22] \<and>
   sent [Rd 0 2, Wr 8 0x100, Rd 0 6, Wr 8 0x100, Rd 8 0x11, Rd 0 4, Rd 8 0x22] =
     replicate 2 0x100 \<and>
   received [Rd 0 2, Wr 8 0x100, Rd 0 6, Wr 8 0x100, Rd 8 0x11, Rd 0 4, Rd 8 0x22] =
     [0x11, 0x22]"
proof -
  let ?ev = "[Rd 0 2, Wr 8 0x100, Rd 0 6, Wr 8 0x100, Rd 8 0x11, Rd 0 4, Rd 8 0x22]"
  let ?H = "hw_of [2, 6, 0x11, 4, 0x22] []"
  let ?H' = "\<lparr>reads = [], cycles = [], trace = ?ev\<rparr>"
  have run: "spi_read_bytes_loop 2 0 2 (\<lambda>_. 0) ?H =
     Some (2, 0, (\<lambda>_. 0)(0 := 0x11, 1 := 0x22), ?H')"
    by (simp add: run_simps src_consts)
  have tr: "trace ?H' = trace ?H @ ?ev" by (simp add: hw_of_def)
  have io: "in_order 0 ?ev" by (simp add: src_consts)
  have rc: "received ?ev = [0x11, 0x22]" by (simp add: src_consts)
  from spi_read_bytes_counts [THEN conjunct1, rule_format, OF run tr io] io rc
  show ?thesis by simp
qed

text \<open>
  The condition on the controller is used: with two bytes left in the receive queue at
  entry, the state that \<open>rvlib_spiflash_init\<close> removes, the loop captures them and makes
  no request.
\<close>

lemma read_bytes_stale_queue:
  "spi_read_bytes_loop 2 0 2 (\<lambda>_. 0) (hw_of [4, 0x11, 4, 0x22] []) =
     Some (2, 2, (\<lambda>_. 0)(0 := 0x11, 1 := 0x22),
           \<lparr>reads = [], cycles = [], trace = [Rd 0 4, Rd 8 0x11, Rd 0 4, Rd 8 0x22]\<rparr>) \<and>
   \<not> in_order 0 [Rd 0 4, Rd 8 0x11, Rd 0 4, Rd 8 0x22]"
  by (simp add: run_simps src_consts)

subsection \<open>Effects of the command transactions\<close>

lemma send_byte_trace:
  assumes "spi_send_byte b h = Some h'"
  shows "\<exists>ev. trace h' = trace h @ ev \<and> sent ev = [ucast b] \<and> received ev = [] \<and>
              deselects ev = [] \<and> clock_reads ev = []"
proof -
  from send_byte_effect [OF assms] obtain ss where
    "trace h' = trace h @ status_polls ss @ [Wr RVLIB_SPIFLASH_REG_DATA (ucast b)]" by blast
  then have "trace h' = trace h @ (status_polls ss @ [Wr RVLIB_SPIFLASH_REG_DATA (ucast b)]) \<and>
     sent (status_polls ss @ [Wr RVLIB_SPIFLASH_REG_DATA (ucast b)]) = [ucast b] \<and>
     received (status_polls ss @ [Wr RVLIB_SPIFLASH_REG_DATA (ucast b)]) = [] \<and>
     deselects (status_polls ss @ [Wr RVLIB_SPIFLASH_REG_DATA (ucast b)]) = [] \<and>
     clock_reads (status_polls ss @ [Wr RVLIB_SPIFLASH_REG_DATA (ucast b)]) = []"
    by simp
  then show ?thesis by blast
qed

lemma read_bytes_trace:
  assumes "spi_read_bytes buf n h = Some (buf', h')"
  shows "\<exists>ev k. trace h' = trace h @ ev \<and> k \<le> n \<and> sent ev = replicate k 0x100 \<and>
           length (received ev) = n \<and> (\<forall>i<n. buf' i = ucast (received ev ! i)) \<and>
           deselects ev = [] \<and> clock_reads ev = []"
proof -
  from assms obtain p ncmd where
    run: "spi_read_bytes_loop n 0 n buf h = Some (p, ncmd, buf', h')"
    by (auto simp: spi_read_bytes_def split: option.splits)
  from read_bytes_loop_effect [OF run] obtain ev where
    "trace h' = trace h @ ev" "sent ev = replicate (n - ncmd) 0x100"
    "length (received ev) = n - 0"
    "\<forall>i. buf' i = (if 0 \<le> i \<and> i < n then ucast (received ev ! (i - 0)) else buf i)"
    "deselects ev = []" "clock_reads ev = []"
    by auto
  then have "trace h' = trace h @ ev \<and> n - ncmd \<le> n \<and> sent ev = replicate (n - ncmd) 0x100 \<and>
           length (received ev) = n \<and> (\<forall>i<n. buf' i = ucast (received ev ! i)) \<and>
           deselects ev = [] \<and> clock_reads ev = []"
    by simp
  then show ?thesis by blast
qed

lemma end_transaction_trace:
  assumes "spi_end_transaction h = Some h'"
  shows "\<exists>ev s. trace h' = trace h @ ev @
                  [Rd RVLIB_SPIFLASH_REG_STATUS s, Wr RVLIB_SPIFLASH_REG_SLAVESEL 0] \<and>
           \<not> bit s RVLIB_SPIFLASH_BIT_STATUS_BUSY \<and>
           sent ev = [] \<and> received ev = [] \<and> deselects ev = [] \<and> clock_reads ev = []"
proof -
  from end_transaction_effect [OF assms] obtain ss s where
    "trace h' = trace h @ status_polls ss @
                [Rd RVLIB_SPIFLASH_REG_STATUS s, Wr RVLIB_SPIFLASH_REG_SLAVESEL 0]"
    "\<not> bit s RVLIB_SPIFLASH_BIT_STATUS_BUSY" by blast
  then have "trace h' = trace h @ status_polls ss @
                [Rd RVLIB_SPIFLASH_REG_STATUS s, Wr RVLIB_SPIFLASH_REG_SLAVESEL 0] \<and>
           \<not> bit s RVLIB_SPIFLASH_BIT_STATUS_BUSY \<and>
           sent (status_polls ss) = [] \<and> received (status_polls ss) = [] \<and>
           deselects (status_polls ss) = [] \<and> clock_reads (status_polls ss) = []"
    by simp
  then show ?thesis by blast
qed

lemma addr_write_loop_trace:
  "spi_command_addr_write_loop data n p h = Some h' \<Longrightarrow>
     \<exists>ev. trace h' = trace h @ ev \<and> sent ev = map (\<lambda>i. ucast (data i)) [p..<n] \<and>
          received ev = [] \<and> deselects ev = [] \<and> clock_reads ev = []"
proof (induction data n p h rule: spi_command_addr_write_loop.induct)
  case (1 data n p h)
  note unf = spi_command_addr_write_loop.simps [of data n p h]
  show ?case
  proof (cases "p < n")
    case False
    with "1.prems" have "h' = h" by (simp add: unf)
    with False have "trace h' = trace h @ [] \<and> sent [] = map (\<lambda>i. ucast (data i)) [p..<n] \<and>
          received [] = [] \<and> deselects [] = [] \<and> clock_reads [] = []" by simp
    then show ?thesis by blast
  next
    case True
    with "1.prems" obtain h1 where sb: "spi_send_byte (data p) h = Some h1"
      and rest: "spi_command_addr_write_loop data n (p + 1) h1 = Some h'"
      by (auto simp: unf split: option.splits)
    from send_byte_trace [OF sb] obtain e1 where e1:
      "trace h1 = trace h @ e1" "sent e1 = [ucast (data p)]" "received e1 = []"
      "deselects e1 = []" "clock_reads e1 = []" by blast
    from "1.IH" [OF True sb rest] obtain e2 where e2:
      "trace h' = trace h1 @ e2" "sent e2 = map (\<lambda>i. ucast (data i)) [p + 1..<n]"
      "received e2 = []" "deselects e2 = []" "clock_reads e2 = []" by blast
    from True have "[p..<n] = p # [p + 1..<n]" by (simp add: upt_conv_Cons)
    with e1 e2 have "trace h' = trace h @ (e1 @ e2) \<and>
          sent (e1 @ e2) = map (\<lambda>i. ucast (data i)) [p..<n] \<and>
          received (e1 @ e2) = [] \<and> deselects (e1 @ e2) = [] \<and> clock_reads (e1 @ e2) = []"
      by simp
    then show ?thesis by blast
  qed
qed

lemma command_simple_trace:
  assumes "spi_command_simple cmd h = Some h'"
  shows "\<exists>ev s. transaction h h' ev s \<and> sent ev = [ucast cmd] \<and> received ev = []"
proof -
  from assms obtain h1 where sb: "spi_send_byte cmd h = Some h1"
    and et: "spi_end_transaction h1 = Some h'"
    by (auto simp: spi_command_simple_def bind_eq_Some_conv)
  from send_byte_trace [OF sb] obtain e1 where e1:
    "trace h1 = trace h @ e1" "sent e1 = [ucast cmd]" "received e1 = []"
    "deselects e1 = []" "clock_reads e1 = []" by blast
  from end_transaction_trace [OF et] obtain e2 s where e2:
    "trace h' = trace h1 @ e2 @
       [Rd RVLIB_SPIFLASH_REG_STATUS s, Wr RVLIB_SPIFLASH_REG_SLAVESEL 0]"
    "\<not> bit s RVLIB_SPIFLASH_BIT_STATUS_BUSY"
    "sent e2 = []" "received e2 = []" "deselects e2 = []" "clock_reads e2 = []" by blast
  from e1 e2 have "transaction h h' (e1 @ e2) s \<and> sent (e1 @ e2) = [ucast cmd] \<and>
    received (e1 @ e2) = []"
    by (simp add: transaction_def)
  then show ?thesis by blast
qed

lemma command_read_trace:
  assumes "spi_command_read cmd buf n h = Some (buf', h')"
  shows "\<exists>ev s k. transaction h h' ev s \<and> k \<le> n \<and>
           sent ev = ucast cmd # replicate k 0x100 \<and>
           length (received ev) = n \<and> (\<forall>i<n. buf' i = ucast (received ev ! i))"
proof -
  from assms obtain h1 h2 where sb: "spi_send_byte cmd h = Some h1"
    and rb: "spi_read_bytes buf n h1 = Some (buf', h2)"
    and et: "spi_end_transaction h2 = Some h'"
    by (auto simp: spi_command_read_def bind_eq_Some_conv)
  from send_byte_trace [OF sb] obtain e1 where e1:
    "trace h1 = trace h @ e1" "sent e1 = [ucast cmd]" "received e1 = []"
    "deselects e1 = []" "clock_reads e1 = []" by blast
  from read_bytes_trace [OF rb] obtain e2 k where e2:
    "trace h2 = trace h1 @ e2" "k \<le> n" "sent e2 = replicate k 0x100"
    "length (received e2) = n" "\<forall>i<n. buf' i = ucast (received e2 ! i)"
    "deselects e2 = []" "clock_reads e2 = []" by blast
  from end_transaction_trace [OF et] obtain e3 s where e3:
    "trace h' = trace h2 @ e3 @
       [Rd RVLIB_SPIFLASH_REG_STATUS s, Wr RVLIB_SPIFLASH_REG_SLAVESEL 0]"
    "\<not> bit s RVLIB_SPIFLASH_BIT_STATUS_BUSY"
    "sent e3 = []" "received e3 = []" "deselects e3 = []" "clock_reads e3 = []" by blast
  from e1 e2 e3 have "transaction h h' (e1 @ e2 @ e3) s \<and> k \<le> n \<and>
      sent (e1 @ e2 @ e3) = ucast cmd # replicate k 0x100 \<and>
      length (received (e1 @ e2 @ e3)) = n \<and>
      (\<forall>i<n. buf' i = ucast (received (e1 @ e2 @ e3) ! i))"
    by (simp add: transaction_def)
  then show ?thesis by blast
qed

lemma address_bytes_trace:
  assumes "spi_send_byte cmd h = Some h1"
    and "spi_send_byte (ucast (drop_bit 16 addr)) h1 = Some h2"
    and "spi_send_byte (ucast (drop_bit 8 addr)) h2 = Some h3"
    and "spi_send_byte (ucast addr) h3 = Some h4"
  shows "\<exists>ev. trace h4 = trace h @ ev \<and>
           sent ev = [ucast cmd, ucast (ucast (drop_bit 16 addr) :: 8 word),
                      ucast (ucast (drop_bit 8 (addr::32 word)) :: 8 word),
                      ucast (ucast addr :: 8 word)] \<and>
           received ev = [] \<and> deselects ev = [] \<and> clock_reads ev = []"
proof -
  from send_byte_trace [OF assms(1)] obtain e1 where e1:
    "trace h1 = trace h @ e1" "sent e1 = [ucast cmd]" "received e1 = []"
    "deselects e1 = []" "clock_reads e1 = []" by blast
  from send_byte_trace [OF assms(2)] obtain e2 where e2:
    "trace h2 = trace h1 @ e2" "sent e2 = [ucast (ucast (drop_bit 16 addr) :: 8 word)]"
    "received e2 = []" "deselects e2 = []" "clock_reads e2 = []" by blast
  from send_byte_trace [OF assms(3)] obtain e3 where e3:
    "trace h3 = trace h2 @ e3" "sent e3 = [ucast (ucast (drop_bit 8 addr) :: 8 word)]"
    "received e3 = []" "deselects e3 = []" "clock_reads e3 = []" by blast
  from send_byte_trace [OF assms(4)] obtain e4 where e4:
    "trace h4 = trace h3 @ e4" "sent e4 = [ucast (ucast addr :: 8 word)]"
    "received e4 = []" "deselects e4 = []" "clock_reads e4 = []" by blast
  from e1 e2 e3 e4 have "trace h4 = trace h @ (e1 @ e2 @ e3 @ e4) \<and>
      sent (e1 @ e2 @ e3 @ e4) = [ucast cmd, ucast (ucast (drop_bit 16 addr) :: 8 word),
                      ucast (ucast (drop_bit 8 addr) :: 8 word),
                      ucast (ucast addr :: 8 word)] \<and>
      received (e1 @ e2 @ e3 @ e4) = [] \<and> deselects (e1 @ e2 @ e3 @ e4) = [] \<and>
      clock_reads (e1 @ e2 @ e3 @ e4) = []"
    by simp
  then show ?thesis by blast
qed

lemma command_addr_read_trace:
  assumes "spi_command_addr_read cmd addr buf n h = Some (buf', h')"
  shows "\<exists>ev s k. transaction h h' ev s \<and> k \<le> n \<and>
           sent ev = [ucast cmd, ucast (ucast (drop_bit 16 addr) :: 8 word),
                      ucast (ucast (drop_bit 8 addr) :: 8 word),
                      ucast (ucast addr :: 8 word)] @ replicate k 0x100 \<and>
           length (received ev) = n \<and> (\<forall>i<n. buf' i = ucast (received ev ! i))"
proof -
  from assms obtain h1 h2 h3 h4 h5 where sb: "spi_send_byte cmd h = Some h1"
    "spi_send_byte (ucast (drop_bit 16 addr)) h1 = Some h2"
    "spi_send_byte (ucast (drop_bit 8 addr)) h2 = Some h3"
    "spi_send_byte (ucast addr) h3 = Some h4"
    and rb: "spi_read_bytes buf n h4 = Some (buf', h5)"
    and et: "spi_end_transaction h5 = Some h'"
    by (auto simp: spi_command_addr_read_def bind_eq_Some_conv)
  from address_bytes_trace [OF sb] obtain e1 where e1:
    "trace h4 = trace h @ e1"
    "sent e1 = [ucast cmd, ucast (ucast (drop_bit 16 addr) :: 8 word),
                ucast (ucast (drop_bit 8 addr) :: 8 word), ucast (ucast addr :: 8 word)]"
    "received e1 = []" "deselects e1 = []" "clock_reads e1 = []" by blast
  from read_bytes_trace [OF rb] obtain e2 k where e2:
    "trace h5 = trace h4 @ e2" "k \<le> n" "sent e2 = replicate k 0x100"
    "length (received e2) = n" "\<forall>i<n. buf' i = ucast (received e2 ! i)"
    "deselects e2 = []" "clock_reads e2 = []" by blast
  from end_transaction_trace [OF et] obtain e3 s where e3:
    "trace h' = trace h5 @ e3 @
       [Rd RVLIB_SPIFLASH_REG_STATUS s, Wr RVLIB_SPIFLASH_REG_SLAVESEL 0]"
    "\<not> bit s RVLIB_SPIFLASH_BIT_STATUS_BUSY"
    "sent e3 = []" "received e3 = []" "deselects e3 = []" "clock_reads e3 = []" by blast
  from e1 e2 e3 have "transaction h h' (e1 @ e2 @ e3) s \<and> k \<le> n \<and>
      sent (e1 @ e2 @ e3) = [ucast cmd, ucast (ucast (drop_bit 16 addr) :: 8 word),
                      ucast (ucast (drop_bit 8 addr) :: 8 word),
                      ucast (ucast addr :: 8 word)] @ replicate k 0x100 \<and>
      length (received (e1 @ e2 @ e3)) = n \<and>
      (\<forall>i<n. buf' i = ucast (received (e1 @ e2 @ e3) ! i))"
    by (simp add: transaction_def)
  then show ?thesis by blast
qed

lemma command_addr_write_trace:
  assumes "spi_command_addr_write cmd addr data n h = Some h'"
  shows "\<exists>ev s. transaction h h' ev s \<and>
           sent ev = [ucast cmd, ucast (ucast (drop_bit 16 addr) :: 8 word),
                      ucast (ucast (drop_bit 8 addr) :: 8 word),
                      ucast (ucast addr :: 8 word)] @ map (\<lambda>i. ucast (data i)) [0..<n] \<and>
           received ev = []"
proof -
  from assms obtain h1 h2 h3 h4 h5 where sb: "spi_send_byte cmd h = Some h1"
    "spi_send_byte (ucast (drop_bit 16 addr)) h1 = Some h2"
    "spi_send_byte (ucast (drop_bit 8 addr)) h2 = Some h3"
    "spi_send_byte (ucast addr) h3 = Some h4"
    and wl: "spi_command_addr_write_loop data n 0 h4 = Some h5"
    and et: "spi_end_transaction h5 = Some h'"
    by (auto simp: spi_command_addr_write_def bind_eq_Some_conv)
  from address_bytes_trace [OF sb] obtain e1 where e1:
    "trace h4 = trace h @ e1"
    "sent e1 = [ucast cmd, ucast (ucast (drop_bit 16 addr) :: 8 word),
                ucast (ucast (drop_bit 8 addr) :: 8 word), ucast (ucast addr :: 8 word)]"
    "received e1 = []" "deselects e1 = []" "clock_reads e1 = []" by blast
  from addr_write_loop_trace [OF wl] obtain e2 where e2:
    "trace h5 = trace h4 @ e2" "sent e2 = map (\<lambda>i. ucast (data i)) [0..<n]"
    "received e2 = []" "deselects e2 = []" "clock_reads e2 = []" by blast
  from end_transaction_trace [OF et] obtain e3 s where e3:
    "trace h' = trace h5 @ e3 @
       [Rd RVLIB_SPIFLASH_REG_STATUS s, Wr RVLIB_SPIFLASH_REG_SLAVESEL 0]"
    "\<not> bit s RVLIB_SPIFLASH_BIT_STATUS_BUSY"
    "sent e3 = []" "received e3 = []" "deselects e3 = []" "clock_reads e3 = []" by blast
  from e1 e2 e3 have "transaction h h' (e1 @ e2 @ e3) s \<and>
      sent (e1 @ e2 @ e3) = [ucast cmd, ucast (ucast (drop_bit 16 addr) :: 8 word),
                      ucast (ucast (drop_bit 8 addr) :: 8 word),
                      ucast (ucast addr :: 8 word)] @ map (\<lambda>i. ucast (data i)) [0..<n] \<and>
      received (e1 @ e2 @ e3) = []"
    by (simp add: transaction_def)
  then show ?thesis by blast
qed

lemma command_simple_bus:
  assumes "spi_command_simple cmd h = Some h'"
  shows "\<exists>ev. trace h' = trace h @ ev \<and>
           bus ev = [Wr RVLIB_SPIFLASH_REG_DATA (ucast cmd), Wr RVLIB_SPIFLASH_REG_SLAVESEL 0]"
proof -
  from assms obtain h1 where sb: "spi_send_byte cmd h = Some h1"
    and et: "spi_end_transaction h1 = Some h'"
    by (auto simp: spi_command_simple_def bind_eq_Some_conv)
  from send_byte_bus [OF sb] obtain e1 where e1:
    "trace h1 = trace h @ e1" "bus e1 = [Wr RVLIB_SPIFLASH_REG_DATA (ucast cmd)]" by blast
  from end_transaction_bus [OF et] obtain e2 where e2:
    "trace h' = trace h1 @ e2" "bus e2 = [Wr RVLIB_SPIFLASH_REG_SLAVESEL 0]" by blast
  from e1 e2 have "trace h' = trace h @ (e1 @ e2) \<and>
      bus (e1 @ e2) = [Wr RVLIB_SPIFLASH_REG_DATA (ucast cmd), Wr RVLIB_SPIFLASH_REG_SLAVESEL 0]"
    by simp
  then show ?thesis by blast
qed

subsection \<open>Deselecting the slave\<close>

lemma deselects_when_idle_last:
  "deselects ev = [] \<Longrightarrow> \<not> bit s RVLIB_SPIFLASH_BIT_STATUS_BUSY \<Longrightarrow>
     deselects_when_idle idle
       (ev @ [Rd RVLIB_SPIFLASH_REG_STATUS s, Wr RVLIB_SPIFLASH_REG_SLAVESEL 0])"
proof (induction ev arbitrary: idle)
  case Nil
  then show ?case by simp
next
  case (Cons e ev)
  then show ?case by (cases e) (auto split: if_splits)
qed

lemma ends_deselectedI:
  "spi_end_transaction hm = Some h' \<Longrightarrow> transaction h h' ev s \<Longrightarrow> ends_deselected h h'"
  unfolding ends_deselected_def
  by (blast intro: deselects_when_idle_last dest: transaction_def [THEN iffD1])

lemmas command_simps =
  spi_command_simple_def spi_command_read_def spi_command_addr_read_def
  spi_command_addr_write_loop.simps spi_command_addr_write_def

text \<open>
  C8. Each of the four command transactions (simple, command+read, command+address+read,
  command+address+write) returns exactly when its steps return one after the other, in the
  order of the source, and the last step is \<open>spi_end_transaction\<close>. When it has returned,
  the write of 0 to SLAVESEL is the last register access, it comes right after a STATUS read
  in which BUSY is clear, it is the only write to SLAVESEL of the transaction, and so
  slave-select is never deasserted while BUSY was last seen set.
\<close>

theorem commands_end_deselected:
  "(spi_command_simple cmd h = Some h' \<longleftrightarrow>
      (\<exists>h1. spi_send_byte cmd h = Some h1 \<and> spi_end_transaction h1 = Some h')) \<and>
   (spi_command_read cmd buf n h = Some (buf', h') \<longleftrightarrow>
      (\<exists>h1 h2. spi_send_byte cmd h = Some h1 \<and> spi_read_bytes buf n h1 = Some (buf', h2) \<and>
         spi_end_transaction h2 = Some h')) \<and>
   (spi_command_addr_read cmd addr buf n h = Some (buf', h') \<longleftrightarrow>
      (\<exists>h1 h2 h3 h4 h5. spi_send_byte cmd h = Some h1 \<and>
         spi_send_byte (ucast (drop_bit 16 addr)) h1 = Some h2 \<and>
         spi_send_byte (ucast (drop_bit 8 addr)) h2 = Some h3 \<and>
         spi_send_byte (ucast addr) h3 = Some h4 \<and>
         spi_read_bytes buf n h4 = Some (buf', h5) \<and> spi_end_transaction h5 = Some h')) \<and>
   (spi_command_addr_write cmd addr data n h = Some h' \<longleftrightarrow>
      (\<exists>h1 h2 h3 h4 h5. spi_send_byte cmd h = Some h1 \<and>
         spi_send_byte (ucast (drop_bit 16 addr)) h1 = Some h2 \<and>
         spi_send_byte (ucast (drop_bit 8 addr)) h2 = Some h3 \<and>
         spi_send_byte (ucast addr) h3 = Some h4 \<and>
         spi_command_addr_write_loop data n 0 h4 = Some h5 \<and>
         spi_end_transaction h5 = Some h')) \<and>
   (spi_command_simple cmd h = Some h' \<longrightarrow> ends_deselected h h') \<and>
   (spi_command_read cmd buf n h = Some (buf', h') \<longrightarrow> ends_deselected h h') \<and>
   (spi_command_addr_read cmd addr buf n h = Some (buf', h') \<longrightarrow> ends_deselected h h') \<and>
   (spi_command_addr_write cmd addr data n h = Some h' \<longrightarrow> ends_deselected h h')"
proof (intro conjI impI)
  show "spi_command_simple cmd h = Some h' \<longleftrightarrow>
      (\<exists>h1. spi_send_byte cmd h = Some h1 \<and> spi_end_transaction h1 = Some h')"
    by (simp add: spi_command_simple_def bind_eq_Some_conv)
next
  show "spi_command_read cmd buf n h = Some (buf', h') \<longleftrightarrow>
      (\<exists>h1 h2. spi_send_byte cmd h = Some h1 \<and> spi_read_bytes buf n h1 = Some (buf', h2) \<and>
         spi_end_transaction h2 = Some h')"
    by (auto simp: spi_command_read_def bind_eq_Some_conv)
next
  show "spi_command_addr_read cmd addr buf n h = Some (buf', h') \<longleftrightarrow>
      (\<exists>h1 h2 h3 h4 h5. spi_send_byte cmd h = Some h1 \<and>
         spi_send_byte (ucast (drop_bit 16 addr)) h1 = Some h2 \<and>
         spi_send_byte (ucast (drop_bit 8 addr)) h2 = Some h3 \<and>
         spi_send_byte (ucast addr) h3 = Some h4 \<and>
         spi_read_bytes buf n h4 = Some (buf', h5) \<and> spi_end_transaction h5 = Some h')"
    by (auto simp: spi_command_addr_read_def bind_eq_Some_conv)
next
  show "spi_command_addr_write cmd addr data n h = Some h' \<longleftrightarrow>
      (\<exists>h1 h2 h3 h4 h5. spi_send_byte cmd h = Some h1 \<and>
         spi_send_byte (ucast (drop_bit 16 addr)) h1 = Some h2 \<and>
         spi_send_byte (ucast (drop_bit 8 addr)) h2 = Some h3 \<and>
         spi_send_byte (ucast addr) h3 = Some h4 \<and>
         spi_command_addr_write_loop data n 0 h4 = Some h5 \<and>
         spi_end_transaction h5 = Some h')"
    by (simp add: spi_command_addr_write_def bind_eq_Some_conv)
next
  assume run: "spi_command_simple cmd h = Some h'"
  then obtain hm where "spi_end_transaction hm = Some h'"
    by (auto simp: spi_command_simple_def bind_eq_Some_conv)
  with command_simple_trace [OF run] show "ends_deselected h h'"
    by (blast intro: ends_deselectedI)
next
  assume run: "spi_command_read cmd buf n h = Some (buf', h')"
  then obtain hm where "spi_end_transaction hm = Some h'"
    by (auto simp: spi_command_read_def bind_eq_Some_conv)
  with command_read_trace [OF run] show "ends_deselected h h'"
    by (blast intro: ends_deselectedI)
next
  assume run: "spi_command_addr_read cmd addr buf n h = Some (buf', h')"
  then obtain hm where "spi_end_transaction hm = Some h'"
    by (auto simp: spi_command_addr_read_def bind_eq_Some_conv)
  with command_addr_read_trace [OF run] show "ends_deselected h h'"
    by (blast intro: ends_deselectedI)
next
  assume run: "spi_command_addr_write cmd addr data n h = Some h'"
  then obtain hm where "spi_end_transaction hm = Some h'"
    by (auto simp: spi_command_addr_write_def bind_eq_Some_conv)
  with command_addr_write_trace [OF run] show "ends_deselected h h'"
    by (blast intro: ends_deselectedI)
qed

theorem commands_end_deselected_witness:
  "spi_command_simple 6 (hw_of [2, 0] []) =
     Some \<lparr>reads = [], cycles = [], trace = [Rd 0 2, Wr 8 6, Rd 0 0, Wr 4 0]\<rparr> \<and>
   ends_deselected (hw_of [2, 0] [])
     \<lparr>reads = [], cycles = [], trace = [Rd 0 2, Wr 8 6, Rd 0 0, Wr 4 0]\<rparr> \<and>
   spi_command_read 0x9f (\<lambda>_. 0) 1 (hw_of [2, 2, 4, 0xC2, 1, 0] []) =
     Some ((\<lambda>_. 0)(0 := 0xC2), \<lparr>reads = [], cycles = [],
       trace = [Rd 0 2, Wr 8 0x9f, Rd 0 2, Wr 8 0x100, Rd 0 4, Rd 8 0xC2, Rd 0 1, Rd 0 0, Wr 4 0]\<rparr>) \<and>
   ends_deselected (hw_of [2, 2, 4, 0xC2, 1, 0] [])
     \<lparr>reads = [], cycles = [],
      trace = [Rd 0 2, Wr 8 0x9f, Rd 0 2, Wr 8 0x100, Rd 0 4, Rd 8 0xC2, Rd 0 1, Rd 0 0, Wr 4 0]\<rparr> \<and>
   spi_command_addr_read 3 0x7F0100 (\<lambda>_. 0) 1 (hw_of [2, 2, 2, 2, 2, 4, 0xAB, 0] []) =
     Some ((\<lambda>_. 0)(0 := 0xAB), \<lparr>reads = [], cycles = [],
       trace = [Rd 0 2, Wr 8 3, Rd 0 2, Wr 8 0x7F, Rd 0 2, Wr 8 1, Rd 0 2, Wr 8 0,
                Rd 0 2, Wr 8 0x100, Rd 0 4, Rd 8 0xAB, Rd 0 0, Wr 4 0]\<rparr>) \<and>
   ends_deselected (hw_of [2, 2, 2, 2, 2, 4, 0xAB, 0] [])
     \<lparr>reads = [], cycles = [],
      trace = [Rd 0 2, Wr 8 3, Rd 0 2, Wr 8 0x7F, Rd 0 2, Wr 8 1, Rd 0 2, Wr 8 0,
               Rd 0 2, Wr 8 0x100, Rd 0 4, Rd 8 0xAB, Rd 0 0, Wr 4 0]\<rparr> \<and>
   spi_command_addr_write 2 0x7F0100 (\<lambda>_. 0x5A) 1 (hw_of [2, 2, 2, 2, 2, 1, 0] []) =
     Some \<lparr>reads = [], cycles = [],
       trace = [Rd 0 2, Wr 8 2, Rd 0 2, Wr 8 0x7F, Rd 0 2, Wr 8 1, Rd 0 2, Wr 8 0,
                Rd 0 2, Wr 8 0x5A, Rd 0 1, Rd 0 0, Wr 4 0]\<rparr> \<and>
   ends_deselected (hw_of [2, 2, 2, 2, 2, 1, 0] [])
     \<lparr>reads = [], cycles = [],
      trace = [Rd 0 2, Wr 8 2, Rd 0 2, Wr 8 0x7F, Rd 0 2, Wr 8 1, Rd 0 2, Wr 8 0,
               Rd 0 2, Wr 8 0x5A, Rd 0 1, Rd 0 0, Wr 4 0]\<rparr>"
proof -
  have r1: "spi_command_simple 6 (hw_of [2, 0] []) =
      Some \<lparr>reads = [], cycles = [], trace = [Rd 0 2, Wr 8 6, Rd 0 0, Wr 4 0]\<rparr>"
    by (simp add: run_simps command_simps src_consts)
  have r2: "spi_command_read 0x9f (\<lambda>_. 0) 1 (hw_of [2, 2, 4, 0xC2, 1, 0] []) =
      Some ((\<lambda>_. 0)(0 := 0xC2), \<lparr>reads = [], cycles = [],
        trace = [Rd 0 2, Wr 8 0x9f, Rd 0 2, Wr 8 0x100, Rd 0 4, Rd 8 0xC2, Rd 0 1, Rd 0 0, Wr 4 0]\<rparr>)"
    by (simp add: run_simps command_simps src_consts)
  have r3: "spi_command_addr_read 3 0x7F0100 (\<lambda>_. 0) 1 (hw_of [2, 2, 2, 2, 2, 4, 0xAB, 0] []) =
      Some ((\<lambda>_. 0)(0 := 0xAB), \<lparr>reads = [], cycles = [],
        trace = [Rd 0 2, Wr 8 3, Rd 0 2, Wr 8 0x7F, Rd 0 2, Wr 8 1, Rd 0 2, Wr 8 0,
               Rd 0 2, Wr 8 0x100, Rd 0 4, Rd 8 0xAB, Rd 0 0, Wr 4 0]\<rparr>)"
    by (simp add: run_simps command_simps src_consts)
  have r4: "spi_command_addr_write 2 0x7F0100 (\<lambda>_. 0x5A) 1 (hw_of [2, 2, 2, 2, 2, 1, 0] []) =
      Some \<lparr>reads = [], cycles = [],
        trace = [Rd 0 2, Wr 8 2, Rd 0 2, Wr 8 0x7F, Rd 0 2, Wr 8 1, Rd 0 2, Wr 8 0,
               Rd 0 2, Wr 8 0x5A, Rd 0 1, Rd 0 0, Wr 4 0]\<rparr>"
    by (simp add: run_simps command_simps src_consts)
  note c = commands_end_deselected [THEN conjunct2, THEN conjunct2, THEN conjunct2,
      THEN conjunct2]
  note d1 = c [THEN conjunct1, rule_format, OF r1]
  note d2 = c [THEN conjunct2, THEN conjunct1, rule_format, OF r2]
  note d3 = c [THEN conjunct2, THEN conjunct2, THEN conjunct1, rule_format, OF r3]
  note d4 = c [THEN conjunct2, THEN conjunct2, THEN conjunct2, rule_format, OF r4]
  show ?thesis
    by (intro conjI r1 r2 r3 r4 d1 d2 d3 d4)
qed

subsection \<open>The completion poll\<close>

lemma commands_simps [simp]:
  "commands [] = []"
  "commands (xs @ ys) = commands xs @ commands ys"
  by (simp_all add: commands_def)

lemma top_bit: "(x::64 word) \<ge> push_bit 63 1 \<longleftrightarrow> bit x 63"
proof -
  have lt: "unat x < 2 ^ 64" using unsigned_less [of x] by simp
  have "unat x div 2 ^ 63 = (if 2 ^ 63 \<le> unat x then 1 else 0)"
  proof (cases "2 ^ 63 \<le> unat x")
    case True
    then have "unat x div 2 ^ 63 = 1" using lt by (intro div_nat_eqI) simp_all
    with True show ?thesis by simp
  next
    case False
    then show ?thesis by simp
  qed
  then have odd: "odd (unat x div 2 ^ 63) \<longleftrightarrow> 2 ^ 63 \<le> unat x"
    by simp
  have "bit x 63 \<longleftrightarrow> bit (unat x) 63" by (simp add: bit_unsigned_iff)
  also have "\<dots> \<longleftrightarrow> odd (unat x div 2 ^ 63)" by (simp only: bit_iff_odd)
  also have "\<dots> \<longleftrightarrow> push_bit 63 1 \<le> x" using odd by (simp add: word_le_nat_alt)
  finally show ?thesis by simp
qed

text \<open>One READ\_FLAGS transaction: one command byte 0x70, one byte received.\<close>

lemma read_flags_trace:
  assumes "spi_command_read SPIFLASH_CMD_READ_FLAGS buf 1 h = Some (buf', h')"
  shows "\<exists>ev r. trace h' = trace h @ ev \<and> commands ev = [0x70] \<and> received ev = [r] \<and>
           buf' 0 = ucast r \<and> deselects ev = [0] \<and> clock_reads ev = []"
proof -
  from command_read_trace [OF assms] obtain ev s k where ev:
    "transaction h h' ev s" "k \<le> 1"
    "sent ev = ucast SPIFLASH_CMD_READ_FLAGS # replicate k 0x100"
    "length (received ev) = 1" "\<forall>i<1. buf' i = ucast (received ev ! i)" by blast
  let ?ev = "ev @ [Rd RVLIB_SPIFLASH_REG_STATUS s, Wr RVLIB_SPIFLASH_REG_SLAVESEL 0]"
  from ev(4) obtain r where r: "received ev = [r]" by (cases "received ev") auto
  have "commands ev = [0x70]" using ev(3)
    by (simp add: commands_def SPIFLASH_CMD_READ_FLAGS_def)
  with ev r have "trace h' = trace h @ ?ev \<and> commands ?ev = [0x70] \<and> received ?ev = [r] \<and>
           buf' 0 = ucast r \<and> deselects ?ev = [0] \<and> clock_reads ?ev = []"
    by (simp add: transaction_def commands_def)
  then show ?thesis by blast
qed

lemma poll_loop_induct [consumes 1, case_names ready expired again]:
  assumes run: "spiflash_poll_loop e f h = Some r"
    and ready: "\<And>e f h buf h1.
        spi_command_read SPIFLASH_CMD_READ_FLAGS (\<lambda>_. f) 1 h = Some (buf, h1) \<Longrightarrow>
        bit (buf 0) SPIFLASH_BIT_FLAGS_READY \<Longrightarrow> r = (buf 0, h1) \<Longrightarrow> P e f h"
    and expired: "\<And>e f h buf h1 time_now h2.
        spi_command_read SPIFLASH_CMD_READ_FLAGS (\<lambda>_. f) 1 h = Some (buf, h1) \<Longrightarrow>
        \<not> bit (buf 0) SPIFLASH_BIT_FLAGS_READY \<Longrightarrow>
        get_cycle_counter h1 = Some (time_now, h2) \<Longrightarrow>
        poll_expired e time_now \<Longrightarrow> r = (buf 0, h2) \<Longrightarrow> P e f h"
    and again: "\<And>e f h buf h1 time_now h2.
        spi_command_read SPIFLASH_CMD_READ_FLAGS (\<lambda>_. f) 1 h = Some (buf, h1) \<Longrightarrow>
        \<not> bit (buf 0) SPIFLASH_BIT_FLAGS_READY \<Longrightarrow>
        get_cycle_counter h1 = Some (time_now, h2) \<Longrightarrow>
        \<not> poll_expired e time_now \<Longrightarrow>
        spiflash_poll_loop e (buf 0) h2 = Some r \<Longrightarrow> P e (buf 0) h2 \<Longrightarrow> P e f h"
  shows "P e f h"
  using run
proof (induction e f h rule: spiflash_poll_loop.induct)
  case (1 e f h)
  note unf = spiflash_poll_loop.simps [of e f h]
  from "1.prems" obtain buf h1 where
    q: "spi_command_read SPIFLASH_CMD_READ_FLAGS (\<lambda>_. f) 1 h = Some (buf, h1)"
    by (auto simp: unf split: option.splits)
  show ?case
  proof (cases "bit (buf 0) SPIFLASH_BIT_FLAGS_READY")
    case True
    with "1.prems" q have "r = (buf 0, h1)" by (simp add: unf test_bit flag_bit)
    with q True show ?thesis by (rule ready)
  next
    case False
    then have nr: "\<not> (ucast (buf 0) :: 32 word) AND push_bit SPIFLASH_BIT_FLAGS_READY 1 \<noteq> 0"
      by (simp add: test_bit flag_bit)
    with "1.prems" q obtain time_now h2 where
      c: "get_cycle_counter h1 = Some (time_now, h2)"
      by (auto simp: unf test_bit flag_bit split: option.splits)
    show ?thesis
    proof (cases "poll_expired e time_now")
      case True
      with "1.prems" q c False have "r = (buf 0, h2)" by (simp add: unf test_bit flag_bit)
      with q False c True show ?thesis by (rule expired)
    next
      case ne: False
      with "1.prems" q c False have
        rest: "spiflash_poll_loop e (buf 0) h2 = Some r" by (simp add: unf test_bit flag_bit)
      from "1.IH" [OF q refl nr c refl ne rest]
      show ?thesis by (rule again [OF q False c ne rest])
    qed
  qed
qed

lemma poll_loop_effect:
  assumes "spiflash_poll_loop e f0 h = Some (flags, h')"
  shows "\<exists>ev rs r ts. trace h' = trace h @ ev \<and>
           commands ev = replicate (Suc (length rs)) 0x70 \<and>
           deselects ev = replicate (Suc (length rs)) 0 \<and>
           received ev = rs @ [r] \<and> flags = ucast r \<and>
           list_all (\<lambda>v. \<not> bit v SPIFLASH_BIT_FLAGS_READY) rs \<and>
           clock_reads ev = ts \<and>
           (if bit flags SPIFLASH_BIT_FLAGS_READY
            then length ts = length rs \<and> list_all (\<lambda>t. \<not> poll_expired e t) ts
            else length ts = Suc (length rs) \<and> poll_expired e (last ts) \<and>
                 list_all (\<lambda>t. \<not> poll_expired e t) (butlast ts))"
  using assms
proof (induction rule: poll_loop_induct)
  case (ready e f h buf h1)
  from read_flags_trace [OF ready(1)] obtain ev r where ev:
    "trace h1 = trace h @ ev" "commands ev = [0x70]" "received ev = [r]"
    "buf 0 = ucast r" "deselects ev = [0]" "clock_reads ev = []" by blast
  from ready(2,3) ev have "trace h' = trace h @ ev \<and>
           commands ev = replicate (Suc (length ([]::32 word list))) 0x70 \<and>
           deselects ev = replicate (Suc (length ([]::32 word list))) 0 \<and>
           received ev = [] @ [r] \<and> flags = ucast r \<and>
           list_all (\<lambda>v. \<not> bit v SPIFLASH_BIT_FLAGS_READY) [] \<and>
           clock_reads ev = [] \<and>
           (if bit flags SPIFLASH_BIT_FLAGS_READY
            then length ([]::64 word list) = length ([]::32 word list) \<and>
                 list_all (\<lambda>t. \<not> poll_expired e t) []
            else length ([]::64 word list) = Suc (length ([]::32 word list)) \<and>
                 poll_expired e (last []) \<and>
                 list_all (\<lambda>t. \<not> poll_expired e t) (butlast []))"
    by simp
  then show ?case by blast
next
  case (expired e f h buf h1 time_now h2)
  from read_flags_trace [OF expired(1)] obtain ev r where ev:
    "trace h1 = trace h @ ev" "commands ev = [0x70]" "received ev = [r]"
    "buf 0 = ucast r" "deselects ev = [0]" "clock_reads ev = []" by blast
  note c = cycle_counter_effect [OF expired(3)]
  let ?ev = "ev @ [Cyc time_now]"
  from expired(2,4,5) ev c have "trace h' = trace h @ ?ev \<and>
           commands ?ev = replicate (Suc (length ([]::32 word list))) 0x70 \<and>
           deselects ?ev = replicate (Suc (length ([]::32 word list))) 0 \<and>
           received ?ev = [] @ [r] \<and> flags = ucast r \<and>
           list_all (\<lambda>v. \<not> bit v SPIFLASH_BIT_FLAGS_READY) [] \<and>
           clock_reads ?ev = [time_now] \<and>
           (if bit flags SPIFLASH_BIT_FLAGS_READY
            then length [time_now] = length ([]::32 word list) \<and>
                 list_all (\<lambda>t. \<not> poll_expired e t) [time_now]
            else length [time_now] = Suc (length ([]::32 word list)) \<and>
                 poll_expired e (last [time_now]) \<and>
                 list_all (\<lambda>t. \<not> poll_expired e t) (butlast [time_now]))"
    by (simp add: commands_def)
  then show ?case by blast
next
  case (again e f h buf h1 time_now h2)
  from read_flags_trace [OF again(1)] obtain ev r where ev:
    "trace h1 = trace h @ ev" "commands ev = [0x70]" "received ev = [r]"
    "buf 0 = ucast r" "deselects ev = [0]" "clock_reads ev = []" by blast
  note c = cycle_counter_effect [OF again(3)]
  from again.IH obtain ev' rs r' ts where ev':
    "trace h' = trace h2 @ ev'"
    "commands ev' = replicate (Suc (length rs)) 0x70"
    "deselects ev' = replicate (Suc (length rs)) 0"
    "received ev' = rs @ [r']" "flags = ucast r'"
    "list_all (\<lambda>v. \<not> bit v SPIFLASH_BIT_FLAGS_READY) rs"
    "clock_reads ev' = ts"
    "if bit flags SPIFLASH_BIT_FLAGS_READY
     then length ts = length rs \<and> list_all (\<lambda>t. \<not> poll_expired e t) ts
     else length ts = Suc (length rs) \<and> poll_expired e (last ts) \<and>
          list_all (\<lambda>t. \<not> poll_expired e t) (butlast ts)"
    by blast
  have nr: "\<not> bit r SPIFLASH_BIT_FLAGS_READY"
    using again(2) ev(4) by (simp add: bit_ucast_iff SPIFLASH_BIT_FLAGS_READY_def)
  let ?ev = "ev @ Cyc time_now # ev'"
  have clk: "if bit flags SPIFLASH_BIT_FLAGS_READY
     then length (time_now # ts) = length (r # rs) \<and>
          list_all (\<lambda>t. \<not> poll_expired e t) (time_now # ts)
     else length (time_now # ts) = Suc (length (r # rs)) \<and>
          poll_expired e (last (time_now # ts)) \<and>
          list_all (\<lambda>t. \<not> poll_expired e t) (butlast (time_now # ts))"
    using ev'(8) again(4) by (auto split: if_splits)
  have "trace h' = trace h @ ?ev \<and>
           commands ?ev = replicate (Suc (length (r # rs))) 0x70 \<and>
           deselects ?ev = replicate (Suc (length (r # rs))) 0 \<and>
           received ?ev = (r # rs) @ [r'] \<and> flags = ucast r' \<and>
           list_all (\<lambda>v. \<not> bit v SPIFLASH_BIT_FLAGS_READY) (r # rs) \<and>
           clock_reads ?ev = time_now # ts"
    using ev ev'(1-7) c nr by (simp add: commands_def)
  with clk show ?case by blast
qed

lemmas poll_simps =
  spiflash_poll_loop.simps spiflash_poll_completion_def poll_expired_def

lemma poll_completion_effect:
  assumes "spiflash_poll_completion freq timeout_us h = Some (flags, h')"
  shows "\<exists>ev rs r t0 ts. trace h' = trace h @ ev \<and>
           commands ev = replicate (Suc (length rs)) 0x70 \<and>
           deselects ev = replicate (Suc (length rs)) 0 \<and>
           received ev = rs @ [r] \<and> flags = ucast r \<and>
           list_all (\<lambda>v. \<not> bit v SPIFLASH_BIT_FLAGS_READY) rs \<and>
           clock_reads ev = t0 # ts \<and>
           (if bit flags SPIFLASH_BIT_FLAGS_READY
            then length ts = length rs \<and>
                 list_all (\<lambda>t. \<not> poll_expired (t0 + freq * ucast timeout_us) t) ts
            else length ts = Suc (length rs) \<and>
                 poll_expired (t0 + freq * ucast timeout_us) (last ts) \<and>
                 list_all (\<lambda>t. \<not> poll_expired (t0 + freq * ucast timeout_us) t) (butlast ts))"
proof -
  from assms obtain t0 h1 where c: "get_cycle_counter h = Some (t0, h1)"
    and l: "spiflash_poll_loop (t0 + freq * ucast timeout_us) 0 h1 = Some (flags, h')"
    by (auto simp: spiflash_poll_completion_def bind_eq_Some_conv)
  note c' = cycle_counter_effect [OF c]
  let ?e = "t0 + freq * ucast timeout_us"
  from poll_loop_effect [OF l] obtain ev rs r ts where ev:
    "trace h' = trace h1 @ ev"
    "commands ev = replicate (Suc (length rs)) 0x70"
    "deselects ev = replicate (Suc (length rs)) 0"
    "received ev = rs @ [r]" "flags = ucast r"
    "list_all (\<lambda>v. \<not> bit v SPIFLASH_BIT_FLAGS_READY) rs"
    "clock_reads ev = ts"
    "if bit flags SPIFLASH_BIT_FLAGS_READY
     then length ts = length rs \<and> list_all (\<lambda>t. \<not> poll_expired ?e t) ts
     else length ts = Suc (length rs) \<and> poll_expired ?e (last ts) \<and>
          list_all (\<lambda>t. \<not> poll_expired ?e t) (butlast ts)"
    by blast
  let ?ev = "Cyc t0 # ev"
  have "trace h' = trace h @ ?ev \<and>
           commands ?ev = replicate (Suc (length rs)) 0x70 \<and>
           deselects ?ev = replicate (Suc (length rs)) 0 \<and>
           received ?ev = rs @ [r] \<and> flags = ucast r \<and>
           list_all (\<lambda>v. \<not> bit v SPIFLASH_BIT_FLAGS_READY) rs \<and>
           clock_reads ?ev = t0 # ts"
    using ev(1-7) c' by (simp add: commands_def)
  with ev(8) show ?thesis by blast
qed

lemma read_flags_bus:
  assumes "spi_command_read SPIFLASH_CMD_READ_FLAGS buf 1 h = Some (buf', h')"
  shows "\<exists>ev k r. trace h' = trace h @ ev \<and> k \<le> 1 \<and> bus ev = query_bus k r \<and>
           buf' 0 = ucast r"
proof -
  from assms obtain h1 h2 where sb: "spi_send_byte SPIFLASH_CMD_READ_FLAGS h = Some h1"
    and rb: "spi_read_bytes buf 1 h1 = Some (buf', h2)"
    and et: "spi_end_transaction h2 = Some h'"
    by (auto simp: spi_command_read_def bind_eq_Some_conv)
  from rb obtain p ncmd where
    lp: "spi_read_bytes_loop 1 0 1 buf h1 = Some (p, ncmd, buf', h2)"
    by (auto simp: spi_read_bytes_def split: option.splits)
  from send_byte_bus [OF sb] obtain e1 where e1:
    "trace h1 = trace h @ e1"
    "bus e1 = [Wr RVLIB_SPIFLASH_REG_DATA (ucast SPIFLASH_CMD_READ_FLAGS)]" by blast
  from read_last_byte_bus [OF lp] obtain e2 k r where e2:
    "trace h2 = trace h1 @ e2" "k \<le> 1"
    "bus e2 = replicate k (Wr RVLIB_SPIFLASH_REG_DATA 0x100) @ [Rd RVLIB_SPIFLASH_REG_DATA r]"
    "buf' 0 = ucast r" by auto
  from end_transaction_bus [OF et] obtain e3 where e3:
    "trace h' = trace h2 @ e3" "bus e3 = [Wr RVLIB_SPIFLASH_REG_SLAVESEL 0]" by blast
  from e1 e2 e3 have "trace h' = trace h @ (e1 @ e2 @ e3) \<and> k \<le> 1 \<and>
      bus (e1 @ e2 @ e3) = query_bus k r \<and> buf' 0 = ucast r"
    by (simp add: query_bus_def SPIFLASH_CMD_READ_FLAGS_def)
  then show ?thesis by blast
qed

lemma poll_expired_top_bit: "poll_expired e t \<longleftrightarrow> bit (e - t) 63"
  by (simp only: poll_expired_def Let_def top_bit)

lemma poll_loop_step:
  assumes "spi_command_read SPIFLASH_CMD_READ_FLAGS (\<lambda>_. f) 1 h = Some (buf, h1)"
    and "\<not> bit (buf 0) SPIFLASH_BIT_FLAGS_READY"
    and "get_cycle_counter h1 = Some (time_now, h2)"
  shows "spiflash_poll_loop end_time f h =
           (if bit (end_time - time_now) 63 then Some (buf 0, h2)
            else spiflash_poll_loop end_time (buf 0) h2)"
  using assms
  by (subst spiflash_poll_loop.simps) (simp add: test_bit flag_bit poll_expired_top_bit)

lemma poll_loop_bus:
  assumes "spiflash_poll_loop e f0 h = Some (flags, h')"
  shows "\<exists>ev qs k r tl. trace h' = trace h @ ev \<and>
           bus ev = poll_rounds qs @ query_bus k r @ tl \<and>
           list_all (\<lambda>(k, r, t). k \<le> 1 \<and> \<not> bit r SPIFLASH_BIT_FLAGS_READY \<and>
                                 \<not> poll_expired e t) qs \<and>
           k \<le> 1 \<and> flags = ucast r \<and>
           (if bit flags SPIFLASH_BIT_FLAGS_READY then tl = []
            else \<exists>t. tl = [Cyc t] \<and> poll_expired e t)"
  using assms
proof (induction rule: poll_loop_induct)
  case (ready e f h buf h1)
  from read_flags_bus [OF ready(1)] obtain ev k r where ev:
    "trace h1 = trace h @ ev" "k \<le> 1" "bus ev = query_bus k r" "buf 0 = ucast r" by blast
  from ready(2,3) ev have "trace h' = trace h @ ev \<and>
           bus ev = poll_rounds [] @ query_bus k r @ [] \<and>
           list_all (\<lambda>(k, r, t). k \<le> 1 \<and> \<not> bit r SPIFLASH_BIT_FLAGS_READY \<and>
                                 \<not> poll_expired e t) [] \<and>
           k \<le> 1 \<and> flags = ucast r \<and>
           (if bit flags SPIFLASH_BIT_FLAGS_READY then [] = ([]::event list)
            else \<exists>t. [] = [Cyc t] \<and> poll_expired e t)"
    by simp
  then show ?case by blast
next
  case (expired e f h buf h1 time_now h2)
  from read_flags_bus [OF expired(1)] obtain ev k r where ev:
    "trace h1 = trace h @ ev" "k \<le> 1" "bus ev = query_bus k r" "buf 0 = ucast r" by blast
  note c = cycle_counter_effect [OF expired(3)]
  let ?ev = "ev @ [Cyc time_now]"
  from expired(2,4,5) ev c have "trace h' = trace h @ ?ev \<and>
           bus ?ev = poll_rounds [] @ query_bus k r @ [Cyc time_now] \<and>
           list_all (\<lambda>(k, r, t). k \<le> 1 \<and> \<not> bit r SPIFLASH_BIT_FLAGS_READY \<and>
                                 \<not> poll_expired e t) [] \<and>
           k \<le> 1 \<and> flags = ucast r \<and>
           (if bit flags SPIFLASH_BIT_FLAGS_READY then [Cyc time_now] = []
            else \<exists>t. [Cyc time_now] = [Cyc t] \<and> poll_expired e t)"
    by simp
  then show ?case by blast
next
  case (again e f h buf h1 time_now h2)
  from read_flags_bus [OF again(1)] obtain ev k r where ev:
    "trace h1 = trace h @ ev" "k \<le> 1" "bus ev = query_bus k r" "buf 0 = ucast r" by blast
  note c = cycle_counter_effect [OF again(3)]
  from again.IH obtain ev' qs k' r' tl where ev':
    "trace h' = trace h2 @ ev'"
    "bus ev' = poll_rounds qs @ query_bus k' r' @ tl"
    "list_all (\<lambda>(k, r, t). k \<le> 1 \<and> \<not> bit r SPIFLASH_BIT_FLAGS_READY \<and>
                                 \<not> poll_expired e t) qs"
    "k' \<le> 1" "flags = ucast r'"
    "if bit flags SPIFLASH_BIT_FLAGS_READY then tl = []
     else \<exists>t. tl = [Cyc t] \<and> poll_expired e t"
    by blast
  have nr: "\<not> bit r SPIFLASH_BIT_FLAGS_READY"
    using again(2) ev(4) by (simp add: bit_ucast_iff SPIFLASH_BIT_FLAGS_READY_def)
  let ?ev = "ev @ Cyc time_now # ev'"
  have "trace h' = trace h @ ?ev \<and>
           bus ?ev = poll_rounds ((k, r, time_now) # qs) @ query_bus k' r' @ tl \<and>
           list_all (\<lambda>(k, r, t). k \<le> 1 \<and> \<not> bit r SPIFLASH_BIT_FLAGS_READY \<and>
                                 \<not> poll_expired e t) ((k, r, time_now) # qs) \<and>
           k' \<le> 1 \<and> flags = ucast r'"
    using ev ev'(1-5) c nr again(4) by simp
  with ev'(6) show ?case by blast
qed

lemma poll_loop_ready:
  assumes "spi_command_read SPIFLASH_CMD_READ_FLAGS (\<lambda>_. f) 1 h = Some (buf, h1)"
    and "bit (buf 0) SPIFLASH_BIT_FLAGS_READY"
  shows "spiflash_poll_loop end_time f h = Some (buf 0, h1)"
  using assms
  by (subst spiflash_poll_loop.simps) (simp add: test_bit flag_bit)

text \<open>
  C4. \<open>spiflash_poll_completion(timeout_us)\<close> reads the cycle counter (\<open>t0\<close>) and runs
  the loop with the deadline \<open>t0 + freq * timeout_us\<close>. One round of the loop is one
  READ\_FLAGS transaction: when the flag byte has READY (bit 7) set the loop returns it at
  once; when READY is clear the loop reads the clock, returns the flag byte if the deadline
  is past, and goes round again if not. So when the poll has returned, the accesses other
  than STATUS reads are: the clock read; then for each round that went on the write of 0x70
  to DATA, at most one dummy request, the read of the flag byte from DATA, the deselect and
  a clock read; then the last transaction, of the same shape, followed by a clock read only
  if READY is clear. Every flag byte before the last had READY clear and the clock read
  after it was before the deadline. The value returned is the flag byte of the last
  transaction. The loop stopped either because that byte has READY set, or because the
  clock read after it was past the deadline; in the second case the byte returned has
  READY clear.
\<close>

theorem poll_completion_returns_last_flags:
  "(get_cycle_counter h = Some (t0, h0) \<longrightarrow>
      spiflash_poll_completion freq timeout_us h =
        spiflash_poll_loop (t0 + freq * ucast timeout_us) 0 h0) \<and>
   (spi_command_read SPIFLASH_CMD_READ_FLAGS (\<lambda>_. f) 1 h = Some (buf, h1) \<longrightarrow>
    bit (buf 0) SPIFLASH_BIT_FLAGS_READY \<longrightarrow>
      spiflash_poll_loop end_time f h = Some (buf 0, h1)) \<and>
   (spi_command_read SPIFLASH_CMD_READ_FLAGS (\<lambda>_. f) 1 h = Some (buf, h1) \<longrightarrow>
    \<not> bit (buf 0) SPIFLASH_BIT_FLAGS_READY \<longrightarrow>
    get_cycle_counter h1 = Some (time_now, h2) \<longrightarrow>
      spiflash_poll_loop end_time f h =
        (if poll_expired end_time time_now then Some (buf 0, h2)
         else spiflash_poll_loop end_time (buf 0) h2)) \<and>
   (spiflash_poll_completion freq timeout_us h = Some (flags, h') \<longrightarrow>
      (\<exists>ev. trace h' = trace h @ ev \<and>
         (\<exists>rs r t0 ts.
            commands ev = replicate (Suc (length rs)) (ucast SPIFLASH_CMD_READ_FLAGS) \<and>
            deselects ev = replicate (Suc (length rs)) 0 \<and>
            received ev = rs @ [r] \<and> flags = ucast r \<and>
            list_all (\<lambda>v. \<not> bit v SPIFLASH_BIT_FLAGS_READY) rs \<and>
            clock_reads ev = t0 # ts \<and>
            (if bit flags SPIFLASH_BIT_FLAGS_READY
             then length ts = length rs \<and>
                  list_all (\<lambda>t. \<not> poll_expired (t0 + freq * ucast timeout_us) t) ts
             else length ts = Suc (length rs) \<and>
                  poll_expired (t0 + freq * ucast timeout_us) (last ts) \<and>
                  list_all (\<lambda>t. \<not> poll_expired (t0 + freq * ucast timeout_us) t)
                    (butlast ts))) \<and>
         (\<exists>t0 qs k r tl.
            bus ev = Cyc t0 # poll_rounds qs @ query_bus k r @ tl \<and>
            list_all (\<lambda>(k, r, t). k \<le> 1 \<and> \<not> bit r SPIFLASH_BIT_FLAGS_READY \<and>
                        \<not> poll_expired (t0 + freq * ucast timeout_us) t) qs \<and>
            k \<le> 1 \<and> flags = ucast r \<and>
            (if bit flags SPIFLASH_BIT_FLAGS_READY then tl = []
             else \<exists>t. tl = [Cyc t] \<and> poll_expired (t0 + freq * ucast timeout_us) t))))"
proof (intro conjI impI)
  assume "get_cycle_counter h = Some (t0, h0)"
  then show "spiflash_poll_completion freq timeout_us h =
        spiflash_poll_loop (t0 + freq * ucast timeout_us) 0 h0"
    by (simp add: spiflash_poll_completion_def)
next
  assume "spi_command_read SPIFLASH_CMD_READ_FLAGS (\<lambda>_. f) 1 h = Some (buf, h1)"
    "bit (buf 0) SPIFLASH_BIT_FLAGS_READY"
  then show "spiflash_poll_loop end_time f h = Some (buf 0, h1)"
    by (rule poll_loop_ready)
next
  assume "spi_command_read SPIFLASH_CMD_READ_FLAGS (\<lambda>_. f) 1 h = Some (buf, h1)"
    "\<not> bit (buf 0) SPIFLASH_BIT_FLAGS_READY"
    "get_cycle_counter h1 = Some (time_now, h2)"
  from poll_loop_step [OF this]
  show "spiflash_poll_loop end_time f h =
        (if poll_expired end_time time_now then Some (buf 0, h2)
         else spiflash_poll_loop end_time (buf 0) h2)"
    by (simp only: poll_expired_top_bit)
next
  assume run: "spiflash_poll_completion freq timeout_us h = Some (flags, h')"
  from run obtain t0 h1 where c: "get_cycle_counter h = Some (t0, h1)"
    and l: "spiflash_poll_loop (t0 + freq * ucast timeout_us) 0 h1 = Some (flags, h')"
    by (auto simp: spiflash_poll_completion_def bind_eq_Some_conv)
  note c' = cycle_counter_effect [OF c]
  let ?e = "t0 + freq * ucast timeout_us"
  from poll_completion_effect [OF run] obtain ev rs r t0' ts where ev:
    "trace h' = trace h @ ev"
    "commands ev = replicate (Suc (length rs)) 0x70"
    "deselects ev = replicate (Suc (length rs)) 0"
    "received ev = rs @ [r]" "flags = ucast r"
    "list_all (\<lambda>v. \<not> bit v SPIFLASH_BIT_FLAGS_READY) rs"
    "clock_reads ev = t0' # ts"
    "if bit flags SPIFLASH_BIT_FLAGS_READY
     then length ts = length rs \<and>
          list_all (\<lambda>t. \<not> poll_expired (t0' + freq * ucast timeout_us) t) ts
     else length ts = Suc (length rs) \<and>
          poll_expired (t0' + freq * ucast timeout_us) (last ts) \<and>
          list_all (\<lambda>t. \<not> poll_expired (t0' + freq * ucast timeout_us) t) (butlast ts)"
    by blast
  from ev(2) have cm:
    "commands ev = replicate (Suc (length rs)) (ucast SPIFLASH_CMD_READ_FLAGS)"
    by (simp add: SPIFLASH_CMD_READ_FLAGS_def)
  have old: "\<exists>rs r t0 ts.
            commands ev = replicate (Suc (length rs)) (ucast SPIFLASH_CMD_READ_FLAGS) \<and>
            deselects ev = replicate (Suc (length rs)) 0 \<and>
            received ev = rs @ [r] \<and> flags = ucast r \<and>
            list_all (\<lambda>v. \<not> bit v SPIFLASH_BIT_FLAGS_READY) rs \<and>
            clock_reads ev = t0 # ts \<and>
            (if bit flags SPIFLASH_BIT_FLAGS_READY
             then length ts = length rs \<and>
                  list_all (\<lambda>t. \<not> poll_expired (t0 + freq * ucast timeout_us) t) ts
             else length ts = Suc (length rs) \<and>
                  poll_expired (t0 + freq * ucast timeout_us) (last ts) \<and>
                  list_all (\<lambda>t. \<not> poll_expired (t0 + freq * ucast timeout_us) t)
                    (butlast ts))"
    using cm ev(3-8) by blast
  from poll_loop_bus [OF l] obtain ev' qs k r' tl where ev':
    "trace h' = trace h1 @ ev'"
    "bus ev' = poll_rounds qs @ query_bus k r' @ tl"
    "list_all (\<lambda>(k, r, t). k \<le> 1 \<and> \<not> bit r SPIFLASH_BIT_FLAGS_READY \<and>
                                 \<not> poll_expired ?e t) qs"
    "k \<le> 1" "flags = ucast r'"
    "if bit flags SPIFLASH_BIT_FLAGS_READY then tl = []
     else \<exists>t. tl = [Cyc t] \<and> poll_expired ?e t"
    by blast
  from ev(1) ev'(1) c' have "ev = Cyc t0 # ev'" by simp
  with ev'(2) have "bus ev = Cyc t0 # poll_rounds qs @ query_bus k r' @ tl" by simp
  with ev'(3-6) have new: "\<exists>t0 qs k r tl.
            bus ev = Cyc t0 # poll_rounds qs @ query_bus k r @ tl \<and>
            list_all (\<lambda>(k, r, t). k \<le> 1 \<and> \<not> bit r SPIFLASH_BIT_FLAGS_READY \<and>
                        \<not> poll_expired (t0 + freq * ucast timeout_us) t) qs \<and>
            k \<le> 1 \<and> flags = ucast r \<and>
            (if bit flags SPIFLASH_BIT_FLAGS_READY then tl = []
             else \<exists>t. tl = [Cyc t] \<and> poll_expired (t0 + freq * ucast timeout_us) t)"
    by blast
  from ev(1) old new show "\<exists>ev. trace h' = trace h @ ev \<and>
         (\<exists>rs r t0 ts.
            commands ev = replicate (Suc (length rs)) (ucast SPIFLASH_CMD_READ_FLAGS) \<and>
            deselects ev = replicate (Suc (length rs)) 0 \<and>
            received ev = rs @ [r] \<and> flags = ucast r \<and>
            list_all (\<lambda>v. \<not> bit v SPIFLASH_BIT_FLAGS_READY) rs \<and>
            clock_reads ev = t0 # ts \<and>
            (if bit flags SPIFLASH_BIT_FLAGS_READY
             then length ts = length rs \<and>
                  list_all (\<lambda>t. \<not> poll_expired (t0 + freq * ucast timeout_us) t) ts
             else length ts = Suc (length rs) \<and>
                  poll_expired (t0 + freq * ucast timeout_us) (last ts) \<and>
                  list_all (\<lambda>t. \<not> poll_expired (t0 + freq * ucast timeout_us) t)
                    (butlast ts))) \<and>
         (\<exists>t0 qs k r tl.
            bus ev = Cyc t0 # poll_rounds qs @ query_bus k r @ tl \<and>
            list_all (\<lambda>(k, r, t). k \<le> 1 \<and> \<not> bit r SPIFLASH_BIT_FLAGS_READY \<and>
                        \<not> poll_expired (t0 + freq * ucast timeout_us) t) qs \<and>
            k \<le> 1 \<and> flags = ucast r \<and>
            (if bit flags SPIFLASH_BIT_FLAGS_READY then tl = []
             else \<exists>t. tl = [Cyc t] \<and> poll_expired (t0 + freq * ucast timeout_us) t))"
    by blast
qed

theorem poll_completion_returns_last_flags_witness:
  "spiflash_poll_completion 50 5000
     (hw_of [2, 2, 4, 0x02, 0, 2, 2, 4, 0x80, 0] [0, 1000]) =
   Some (0x80, \<lparr>reads = [], cycles = [],
     trace = [Cyc 0,
              Rd 0 2, Wr 8 0x70, Rd 0 2, Wr 8 0x100, Rd 0 4, Rd 8 0x02, Rd 0 0, Wr 4 0,
              Cyc 1000,
              Rd 0 2, Wr 8 0x70, Rd 0 2, Wr 8 0x100, Rd 0 4, Rd 8 0x80, Rd 0 0, Wr 4 0]\<rparr>) \<and>
   bit (0x80 :: 8 word) SPIFLASH_BIT_FLAGS_READY \<and>
   spiflash_poll_completion 50 5000
     (hw_of [2, 2, 4, 0x02, 0, 2, 2, 4, 0x22, 0] [0, 1000, 250001]) =
   Some (0x22, \<lparr>reads = [], cycles = [],
     trace = [Cyc 0,
              Rd 0 2, Wr 8 0x70, Rd 0 2, Wr 8 0x100, Rd 0 4, Rd 8 0x02, Rd 0 0, Wr 4 0,
              Cyc 1000,
              Rd 0 2, Wr 8 0x70, Rd 0 2, Wr 8 0x100, Rd 0 4, Rd 8 0x22, Rd 0 0, Wr 4 0,
              Cyc 250001]\<rparr>) \<and>
   \<not> bit (0x22 :: 8 word) SPIFLASH_BIT_FLAGS_READY \<and>
   (0x22 :: 8 word) = ucast (last (received
             [Cyc 0,
              Rd 0 2, Wr 8 0x70, Rd 0 2, Wr 8 0x100, Rd 0 4, Rd 8 0x02, Rd 0 0, Wr 4 0,
              Cyc 1000,
              Rd 0 2, Wr 8 0x70, Rd 0 2, Wr 8 0x100, Rd 0 4, Rd 8 0x22, Rd 0 0, Wr 4 0,
              Cyc 250001]))"
proof -
  note w = poll_completion_returns_last_flags
  let ?qa = "[Rd 0 2, Wr 8 0x70, Rd 0 2, Wr 8 0x100, Rd 0 4, Rd 8 0x02, Rd 0 0, Wr 4 0]"
  let ?qb = "[Rd 0 2, Wr 8 0x70, Rd 0 2, Wr 8 0x100, Rd 0 4, Rd 8 0x80, Rd 0 0, Wr 4 0]"
  let ?H = "hw_of [2, 2, 4, 0x02, 0, 2, 2, 4, 0x80, 0] [0, 1000]"
  let ?Ha = "\<lparr>reads = [2, 2, 4, 0x02, 0, 2, 2, 4, 0x80, 0], cycles = [1000],
              trace = [Cyc 0]\<rparr>"
  let ?Hb = "\<lparr>reads = [2, 2, 4, 0x80, 0], cycles = [1000], trace = Cyc 0 # ?qa\<rparr>"
  let ?Hc = "\<lparr>reads = [2, 2, 4, 0x80, 0], cycles = [], trace = Cyc 0 # ?qa @ [Cyc 1000]\<rparr>"
  let ?Hd = "\<lparr>reads = [], cycles = [], trace = Cyc 0 # ?qa @ [Cyc 1000] @ ?qb\<rparr>"
  let ?e = "0 + 50 * ucast (5000 :: 32 word) :: 64 word"
  have g: "get_cycle_counter ?H = Some (0, ?Ha)"
    by (simp add: run_simps)
  have q1: "spi_command_read SPIFLASH_CMD_READ_FLAGS (\<lambda>_. 0) 1 ?Ha =
              Some ((\<lambda>_. 0)(0 := 0x02), ?Hb)"
    by (simp add: run_simps command_simps src_consts)
  have nr1: "\<not> bit (((\<lambda>_. 0)(0 := 0x02)) (0::nat) :: 8 word) SPIFLASH_BIT_FLAGS_READY"
    by (simp add: src_consts)
  have c1: "get_cycle_counter ?Hb = Some (1000, ?Hc)"
    by (simp add: run_simps)
  have ne: "\<not> poll_expired ?e 1000"
    by (simp add: poll_expired_def)
  have q2: "spi_command_read SPIFLASH_CMD_READ_FLAGS
              (\<lambda>_. ((\<lambda>_. 0)(0 := 0x02)) (0::nat)) 1 ?Hc =
              Some ((\<lambda>_. 0x02)(0 := 0x80), ?Hd)"
    by (simp add: run_simps command_simps src_consts)
  have rd2: "bit (((\<lambda>_. 0x02)(0 := 0x80)) (0::nat) :: 8 word) SPIFLASH_BIT_FLAGS_READY"
    by (simp add: src_consts bit_iff_odd)
  have "spiflash_poll_completion 50 5000 ?H = spiflash_poll_loop ?e 0 ?Ha"
    by (rule w [THEN conjunct1, rule_format, OF g])
  also have "\<dots> = (if poll_expired ?e 1000
                   then Some (((\<lambda>_. 0)(0 := 0x02)) (0::nat), ?Hc)
                   else spiflash_poll_loop ?e (((\<lambda>_. 0)(0 := 0x02)) (0::nat)) ?Hc)"
    by (rule w [THEN conjunct2, THEN conjunct2, THEN conjunct1, rule_format, OF q1 nr1 c1])
  also have "\<dots> = spiflash_poll_loop ?e (((\<lambda>_. 0)(0 := 0x02)) (0::nat)) ?Hc"
    using ne by simp
  also have "\<dots> = Some (((\<lambda>_. 0x02)(0 := 0x80)) (0::nat), ?Hd)"
    by (rule w [THEN conjunct2, THEN conjunct1, rule_format, OF q2 rd2])
  finally have run1: "spiflash_poll_completion 50 5000 ?H =
      Some (0x80, \<lparr>reads = [], cycles = [],
        trace = [Cyc 0,
              Rd 0 2, Wr 8 0x70, Rd 0 2, Wr 8 0x100, Rd 0 4, Rd 8 0x02, Rd 0 0, Wr 4 0,
              Cyc 1000,
              Rd 0 2, Wr 8 0x70, Rd 0 2, Wr 8 0x100, Rd 0 4, Rd 8 0x80, Rd 0 0, Wr 4 0]\<rparr>)"
    by simp
  have r1: "bit (0x80 :: 8 word) SPIFLASH_BIT_FLAGS_READY"
    by (simp add: src_consts bit_iff_odd)
  let ?tr = "[Cyc 0,
              Rd 0 2, Wr 8 0x70, Rd 0 2, Wr 8 0x100, Rd 0 4, Rd 8 0x02, Rd 0 0, Wr 4 0,
              Cyc 1000,
              Rd 0 2, Wr 8 0x70, Rd 0 2, Wr 8 0x100, Rd 0 4, Rd 8 0x22, Rd 0 0, Wr 4 0,
              Cyc 250001]"
  have run2: "spiflash_poll_completion 50 5000
     (hw_of [2, 2, 4, 0x02, 0, 2, 2, 4, 0x22, 0] [0, 1000, 250001]) =
   Some (0x22, \<lparr>reads = [], cycles = [], trace = ?tr\<rparr>)"
    by (simp add: run_simps command_simps poll_simps src_consts)
  have nr: "\<not> bit (0x22 :: 8 word) SPIFLASH_BIT_FLAGS_READY"
    by (simp add: src_consts)
  from w [THEN conjunct2, THEN conjunct2, THEN conjunct2, rule_format, OF run2]
  obtain ev rs r where
    "trace \<lparr>reads = [], cycles = [], trace = ?tr\<rparr> =
       trace (hw_of [2, 2, 4, 0x02, 0, 2, 2, 4, 0x22, 0] [0, 1000, 250001]) @ ev"
    "received ev = rs @ [r]" "(0x22 :: 8 word) = ucast r"
    by blast
  then have "(0x22 :: 8 word) = ucast (last (received ?tr))"
    by (simp add: hw_of_def)
  with run1 r1 run2 nr show ?thesis by blast
qed

subsection \<open>The deadline\<close>

lemma poll_expired_window:
  fixes start budget elapsed :: "64 word"
  assumes "unat budget < 2 ^ 63" and "unat elapsed \<le> unat budget + 2 ^ 63"
  shows "poll_expired (start + budget) (start + elapsed) \<longleftrightarrow> unat budget < unat elapsed"
proof -
  have d: "(start + budget) - (start + elapsed) = budget - elapsed" by simp
  have lt: "unat elapsed < 2 ^ 64" "unat budget < 2 ^ 64"
    using unsigned_less [of elapsed] unsigned_less [of budget] by simp_all
  have "unat (budget - elapsed) =
          (if unat elapsed \<le> unat budget then unat budget - unat elapsed
           else unat budget + 2 ^ 64 - unat elapsed)"
    by (simp add: unat_sub_if_size word_size)
  then have "2 ^ 63 \<le> unat (budget - elapsed) \<longleftrightarrow> unat budget < unat elapsed"
    using assms lt by (auto split: if_splits)
  then show ?thesis
    by (simp add: poll_expired_def d word_le_nat_alt)
qed

text \<open>
  C5. The deadline of the poll is the cycle counter read at entry plus
  \<open>freq * timeout_us\<close>, in 64-bit arithmetic that wraps around. After a flag byte with
  READY clear the loop reads the cycle counter and stops exactly when
  \<open>end_time - time_now\<close> has bit 63 set, that is when it is at least \<open>2^63\<close> as an
  unsigned number. For a budget below \<open>2^63\<close> cycles and a clock that has run at most
  \<open>2^63\<close> cycles past the deadline, the test says "expired" exactly when more cycles have
  elapsed than the budget, whatever the start value, also when \<open>start + budget\<close> wraps.
\<close>

theorem poll_deadline_wraparound:
  "(get_cycle_counter h = Some (t0, h0) \<longrightarrow>
      spiflash_poll_completion freq timeout_us h =
        spiflash_poll_loop (t0 + freq * ucast timeout_us) 0 h0) \<and>
   (spi_command_read SPIFLASH_CMD_READ_FLAGS (\<lambda>_. f) 1 h = Some (buf, h1) \<longrightarrow>
    \<not> bit (buf 0) SPIFLASH_BIT_FLAGS_READY \<longrightarrow>
    get_cycle_counter h1 = Some (time_now, h2) \<longrightarrow>
      spiflash_poll_loop end_time f h =
        (if bit (end_time - time_now) 63 then Some (buf 0, h2)
         else spiflash_poll_loop end_time (buf 0) h2)) \<and>
   (poll_expired end_time time_now \<longleftrightarrow> bit (end_time - time_now) 63) \<and>
   (poll_expired end_time time_now \<longleftrightarrow> 2 ^ 63 \<le> unat (end_time - time_now)) \<and>
   (unat budget < 2 ^ 63 \<longrightarrow> unat elapsed \<le> unat budget + 2 ^ 63 \<longrightarrow>
      (poll_expired (start + budget) (start + elapsed) \<longleftrightarrow> unat budget < unat elapsed))"
proof (intro conjI impI)
  assume "get_cycle_counter h = Some (t0, h0)"
  then show "spiflash_poll_completion freq timeout_us h =
        spiflash_poll_loop (t0 + freq * ucast timeout_us) 0 h0"
    by (simp add: spiflash_poll_completion_def)
next
  assume "spi_command_read SPIFLASH_CMD_READ_FLAGS (\<lambda>_. f) 1 h = Some (buf, h1)"
    "\<not> bit (buf 0) SPIFLASH_BIT_FLAGS_READY"
    "get_cycle_counter h1 = Some (time_now, h2)"
  then show "spiflash_poll_loop end_time f h =
        (if bit (end_time - time_now) 63 then Some (buf 0, h2)
         else spiflash_poll_loop end_time (buf 0) h2)"
    by (rule poll_loop_step)
next
  show "poll_expired end_time time_now \<longleftrightarrow> bit (end_time - time_now) 63"
    by (rule poll_expired_top_bit)
next
  show "poll_expired end_time time_now \<longleftrightarrow> 2 ^ 63 \<le> unat (end_time - time_now)"
    by (simp add: poll_expired_def word_le_nat_alt)
next
  assume "unat budget < 2 ^ 63" "unat elapsed \<le> unat budget + 2 ^ 63"
  then show "poll_expired (start + budget) (start + elapsed) \<longleftrightarrow> unat budget < unat elapsed"
    by (rule poll_expired_window)
qed

theorem poll_deadline_wraparound_witness:
  "\<not> poll_expired (0xFFFFFFFFFFFFFF9C + 250000) (0xFFFFFFFFFFFFFF9C + 250000) \<and>
   poll_expired (0xFFFFFFFFFFFFFF9C + 250000) (0xFFFFFFFFFFFFFF9C + 250001) \<and>
   (0xFFFFFFFFFFFFFF9C + 250000 :: 64 word) = 249900 \<and>
   spiflash_poll_completion 50 5000
     (hw_of [2, 2, 4, 0x02, 0] [0xFFFFFFFFFFFFFF9C, 249901]) =
   Some (0x02, \<lparr>reads = [], cycles = [],
     trace = [Cyc 0xFFFFFFFFFFFFFF9C,
              Rd 0 2, Wr 8 0x70, Rd 0 2, Wr 8 0x100, Rd 0 4, Rd 8 0x02, Rd 0 0, Wr 4 0,
              Cyc 249901]\<rparr>)"
proof -
  note w = poll_deadline_wraparound
  let ?q = "[Rd 0 2, Wr 8 0x70, Rd 0 2, Wr 8 0x100, Rd 0 4, Rd 8 0x02, Rd 0 0, Wr 4 0]"
  let ?H = "hw_of [2, 2, 4, 0x02, 0] [0xFFFFFFFFFFFFFF9C, 249901]"
  let ?Ha = "\<lparr>reads = [2, 2, 4, 0x02, 0], cycles = [249901], trace = [Cyc 0xFFFFFFFFFFFFFF9C]\<rparr>"
  let ?Hb = "\<lparr>reads = [], cycles = [249901], trace = Cyc 0xFFFFFFFFFFFFFF9C # ?q\<rparr>"
  let ?Hc = "\<lparr>reads = [], cycles = [], trace = Cyc 0xFFFFFFFFFFFFFF9C # ?q @ [Cyc 249901]\<rparr>"
  have b: "unat (250000 :: 64 word) < 2 ^ 63" by simp
  have e1: "unat (250000 :: 64 word) \<le> unat (250000 :: 64 word) + 2 ^ 63" by simp
  have e2: "unat (250001 :: 64 word) \<le> unat (250000 :: 64 word) + 2 ^ 63" by simp
  note win = w [THEN conjunct2, THEN conjunct2, THEN conjunct2, THEN conjunct2, rule_format]
  have "\<not> unat (250000 :: 64 word) < unat (250000 :: 64 word)" by simp
  with win [OF b e1, of "0xFFFFFFFFFFFFFF9C"]
  have a1: "\<not> poll_expired (0xFFFFFFFFFFFFFF9C + 250000) (0xFFFFFFFFFFFFFF9C + 250000)"
    by blast
  have "unat (250000 :: 64 word) < unat (250001 :: 64 word)" by simp
  with win [OF b e2, of "0xFFFFFFFFFFFFFF9C"]
  have a2: "poll_expired (0xFFFFFFFFFFFFFF9C + 250000) (0xFFFFFFFFFFFFFF9C + 250001)"
    by blast
  have a3: "(0xFFFFFFFFFFFFFF9C + 250000 :: 64 word) = 249900" by simp
  have g: "get_cycle_counter ?H = Some (0xFFFFFFFFFFFFFF9C, ?Ha)"
    by (simp add: run_simps)
  have q: "spi_command_read SPIFLASH_CMD_READ_FLAGS (\<lambda>_. 0) 1 ?Ha = Some ((\<lambda>_. 0)(0 := 0x02), ?Hb)"
    by (simp add: run_simps command_simps src_consts)
  have nr: "\<not> bit (((\<lambda>_. 0)(0 := 0x02)) (0::nat) :: 8 word) SPIFLASH_BIT_FLAGS_READY"
    by (simp add: src_consts)
  have c: "get_cycle_counter ?Hb = Some (249901, ?Hc)"
    by (simp add: run_simps)
  have "spiflash_poll_completion 50 5000 ?H =
          spiflash_poll_loop (0xFFFFFFFFFFFFFF9C + 50 * ucast (5000 :: 32 word)) 0 ?Ha"
    by (rule w [THEN conjunct1, rule_format, OF g])
  also have "\<dots> = (if bit ((0xFFFFFFFFFFFFFF9C + 50 * ucast (5000 :: 32 word)) - (249901 :: 64 word)) 63
                   then Some (((\<lambda>_. 0)(0 := 0x02)) (0::nat), ?Hc)
                   else spiflash_poll_loop (0xFFFFFFFFFFFFFF9C + 50 * ucast (5000 :: 32 word))
                          (((\<lambda>_. 0)(0 := 0x02)) (0::nat)) ?Hc)"
    by (rule w [THEN conjunct2, THEN conjunct1, rule_format, OF q nr c])
  also have "\<dots> = Some (0x02, ?Hc)"
    by (simp add: bit_iff_odd)
  finally have run: "spiflash_poll_completion 50 5000 ?H = Some (0x02, ?Hc)" .
  from run have "spiflash_poll_completion 50 5000 ?H =
      Some (0x02, \<lparr>reads = [], cycles = [],
        trace = [Cyc 0xFFFFFFFFFFFFFF9C,
              Rd 0 2, Wr 8 0x70, Rd 0 2, Wr 8 0x100, Rd 0 4, Rd 8 0x02, Rd 0 0, Wr 4 0,
              Cyc 249901]\<rparr>)"
    by simp
  with a1 a2 a3 show ?thesis by blast
qed

subsection \<open>The write-class operations\<close>

lemma page_program_sequence:
  "rvlib_spiflash_page_program freq address data nbytes h =
     spec_write_sequence SPIFLASH_CMD_PAGE_PROGRAM SPIFLASH_BIT_FLAGS_PROGRAM_ERROR
       SPIFLASH_PROGRAM_TIMEOUT_US freq address data nbytes h"
  unfolding rvlib_spiflash_page_program_def spec_write_sequence_def
  by (simp only: test_bit flag_bit not_not)

lemma sector_erase_sequence:
  "rvlib_spiflash_sector_erase freq address h =
     spec_write_sequence SPIFLASH_CMD_SECTOR_ERASE SPIFLASH_BIT_FLAGS_ERASE_ERROR
       SPIFLASH_ERASE_TIMEOUT_US freq address (\<lambda>_. 0) 0 h"
  unfolding rvlib_spiflash_sector_erase_def spec_write_sequence_def
  by (simp only: test_bit flag_bit not_not)

lemma byte_not_dummy [simp]: "(ucast (b :: 8 word) :: 32 word) \<noteq> 0x100"
proof
  assume "(ucast b :: 32 word) = 0x100"
  then have "bit (ucast b :: 32 word) 8 = bit (0x100 :: 32 word) 8" by simp
  moreover have "\<not> bit (ucast b :: 32 word) 8"
    by (auto simp: bit_ucast_iff dest: bit_imp_le_length)
  moreover have "bit (0x100 :: 32 word) 8" by (simp add: bit_iff_odd)
  ultimately show False by blast
qed

lemma commands_bytes [simp]:
  "commands (Wr RVLIB_SPIFLASH_REG_DATA (ucast (b :: 8 word)) # es) = ucast b # commands es"
  by (simp add: commands_def)

lemma filter_bytes [simp]:
  "filter (\<lambda>v. v \<noteq> 0x100) (map (\<lambda>i. (ucast (data i :: 8 word) :: 32 word)) xs) =
     map (\<lambda>i. ucast (data i)) xs"
  by (induction xs) simp_all

lemma command_simple_events:
  assumes "spi_command_simple cmd h = Some h'"
  shows "\<exists>ev. trace h' = trace h @ ev \<and> commands ev = [ucast cmd] \<and> received ev = [] \<and>
           deselects ev = [0] \<and> clock_reads ev = []"
proof -
  from command_simple_trace [OF assms] obtain ev s where
    "transaction h h' ev s" "sent ev = [ucast cmd]" "received ev = []" by blast
  then have "trace h' = trace h @
        (ev @ [Rd RVLIB_SPIFLASH_REG_STATUS s, Wr RVLIB_SPIFLASH_REG_SLAVESEL 0]) \<and>
      commands (ev @ [Rd RVLIB_SPIFLASH_REG_STATUS s, Wr RVLIB_SPIFLASH_REG_SLAVESEL 0]) =
        [ucast cmd] \<and>
      received (ev @ [Rd RVLIB_SPIFLASH_REG_STATUS s, Wr RVLIB_SPIFLASH_REG_SLAVESEL 0]) = [] \<and>
      deselects (ev @ [Rd RVLIB_SPIFLASH_REG_STATUS s, Wr RVLIB_SPIFLASH_REG_SLAVESEL 0]) = [0] \<and>
      clock_reads (ev @ [Rd RVLIB_SPIFLASH_REG_STATUS s, Wr RVLIB_SPIFLASH_REG_SLAVESEL 0]) = []"
    by (simp add: transaction_def commands_def)
  then show ?thesis by blast
qed

lemma command_addr_write_events:
  assumes "spi_command_addr_write cmd addr data n h = Some h'"
  shows "\<exists>ev. trace h' = trace h @ ev \<and>
           commands ev = ucast cmd # address_bytes addr @ map (\<lambda>i. ucast (data i)) [0..<n] \<and>
           received ev = [] \<and> deselects ev = [0] \<and> clock_reads ev = []"
proof -
  from command_addr_write_trace [OF assms] obtain ev s where
    "transaction h h' ev s"
    "sent ev = [ucast cmd, ucast (ucast (drop_bit 16 addr) :: 8 word),
                ucast (ucast (drop_bit 8 addr) :: 8 word),
                ucast (ucast addr :: 8 word)] @ map (\<lambda>i. ucast (data i)) [0..<n]"
    "received ev = []" by blast
  then have "trace h' = trace h @
        (ev @ [Rd RVLIB_SPIFLASH_REG_STATUS s, Wr RVLIB_SPIFLASH_REG_SLAVESEL 0]) \<and>
      commands (ev @ [Rd RVLIB_SPIFLASH_REG_STATUS s, Wr RVLIB_SPIFLASH_REG_SLAVESEL 0]) =
        ucast cmd # address_bytes addr @ map (\<lambda>i. ucast (data i)) [0..<n] \<and>
      received (ev @ [Rd RVLIB_SPIFLASH_REG_STATUS s, Wr RVLIB_SPIFLASH_REG_SLAVESEL 0]) = [] \<and>
      deselects (ev @ [Rd RVLIB_SPIFLASH_REG_STATUS s, Wr RVLIB_SPIFLASH_REG_SLAVESEL 0]) = [0] \<and>
      clock_reads (ev @ [Rd RVLIB_SPIFLASH_REG_STATUS s, Wr RVLIB_SPIFLASH_REG_SLAVESEL 0]) = []"
    by (simp add: transaction_def commands_def address_bytes_def)
  then show ?thesis by blast
qed

text \<open>
  What a run of the sequence has done when it returns: either only the pre-flight query,
  which found READY clear, or the pre-flight query (events \<open>q\<close>), the three commands
  (clear flags, write enable, command with address and payload: events \<open>w\<close>) and the
  completion poll (events \<open>p\<close>), after which the result is decided.
\<close>

lemma write_sequence_cases [consumes 1, case_names notready started]:
  assumes "spec_write_sequence cmd eb tmo freq addr data n h = Some (res, h')"
  obtains
    (notready) buf q r0 where
      "spi_command_read SPIFLASH_CMD_READ_FLAGS (\<lambda>_. 0) 1 h = Some (buf, h')"
      "\<not> bit (buf 0) SPIFLASH_BIT_FLAGS_READY"
      "res = RVLIB_SPIFLASH_ERR_NOTREADY"
      "trace h' = trace h @ q" "commands q = [0x70]" "received q = [r0]"
      "buf 0 = ucast r0" "deselects q = [0]" "clock_reads q = []"
  | (started) buf h1 q r0 h4 w flags h5 p rs rl where
      "spi_command_read SPIFLASH_CMD_READ_FLAGS (\<lambda>_. 0) 1 h = Some (buf, h1)"
      "bit (buf 0) SPIFLASH_BIT_FLAGS_READY"
      "trace h1 = trace h @ q" "commands q = [0x70]" "received q = [r0]"
      "buf 0 = ucast r0"
      "trace h4 = trace h1 @ w"
      "commands w = [0x50, 0x06, ucast cmd] @ address_bytes addr @
                    map (\<lambda>i. ucast (data i)) [0..<n]"
      "received w = []"
      "spiflash_poll_completion freq tmo h4 = Some (flags, h5)"
      "trace h5 = trace h4 @ p" "commands p = replicate (Suc (length rs)) 0x70"
      "received p = rs @ [rl]" "flags = ucast rl"
      "(\<not> bit flags SPIFLASH_BIT_FLAGS_READY \<and> res = RVLIB_SPIFLASH_ERR_TIMEOUT \<and> h' = h5) \<or>
       (bit flags SPIFLASH_BIT_FLAGS_READY \<and> \<not> bit flags eb \<and> res = 0 \<and> h' = h5) \<or>
       (bit flags SPIFLASH_BIT_FLAGS_READY \<and> bit flags eb \<and> res = RVLIB_SPIFLASH_ERR_FAILED \<and>
        spi_command_simple SPIFLASH_CMD_CLEAR_FLAGS h5 = Some h')"
proof -
  from assms obtain buf h1 where
    q: "spi_command_read SPIFLASH_CMD_READ_FLAGS (\<lambda>_. 0) 1 h = Some (buf, h1)"
    by (auto simp: spec_write_sequence_def bind_eq_Some_conv)
  from read_flags_trace [OF q] obtain qe r0 where qe:
    "trace h1 = trace h @ qe" "commands qe = [0x70]" "received qe = [r0]"
    "buf 0 = ucast r0" "deselects qe = [0]" "clock_reads qe = []" by blast
  show thesis
  proof (cases "bit (buf 0) SPIFLASH_BIT_FLAGS_READY")
    case False
    with assms q have r: "res = RVLIB_SPIFLASH_ERR_NOTREADY" and h: "h' = h1"
      by (auto simp: spec_write_sequence_def)
    show thesis
      by (rule notready [OF q [folded h] False r qe(1) [folded h] qe(2-6)])
  next
    case True
    with assms q obtain h2 h3 h4 flags h5 where
      c1: "spi_command_simple SPIFLASH_CMD_CLEAR_FLAGS h1 = Some h2"
      and c2: "spi_command_simple SPIFLASH_CMD_WRITE_ENABLE h2 = Some h3"
      and c3: "spi_command_addr_write cmd addr data n h3 = Some h4"
      and po: "spiflash_poll_completion freq tmo h4 = Some (flags, h5)"
      and fin: "(if \<not> bit flags SPIFLASH_BIT_FLAGS_READY
                 then Some (RVLIB_SPIFLASH_ERR_TIMEOUT, h5)
                 else if bit flags eb
                 then spi_command_simple SPIFLASH_CMD_CLEAR_FLAGS h5 \<bind>
                        (\<lambda>h6. Some (RVLIB_SPIFLASH_ERR_FAILED, h6))
                 else Some (0, h5)) = Some (res, h')"
      by (auto simp: spec_write_sequence_def bind_eq_Some_conv)
    from command_simple_events [OF c1] obtain e1 where e1:
      "trace h2 = trace h1 @ e1" "commands e1 = [ucast SPIFLASH_CMD_CLEAR_FLAGS]"
      "received e1 = []" by blast
    from command_simple_events [OF c2] obtain e2 where e2:
      "trace h3 = trace h2 @ e2" "commands e2 = [ucast SPIFLASH_CMD_WRITE_ENABLE]"
      "received e2 = []" by blast
    from command_addr_write_events [OF c3] obtain e3 where e3:
      "trace h4 = trace h3 @ e3"
      "commands e3 = ucast cmd # address_bytes addr @ map (\<lambda>i. ucast (data i)) [0..<n]"
      "received e3 = []" by blast
    from poll_completion_effect [OF po] obtain p rs rl where p:
      "trace h5 = trace h4 @ p" "commands p = replicate (Suc (length rs)) 0x70"
      "received p = rs @ [rl]" "flags = ucast rl" by blast
    have w1: "trace h4 = trace h1 @ (e1 @ e2 @ e3)" using e1 e2 e3 by simp
    have w2: "commands (e1 @ e2 @ e3) = [0x50, 0x06, ucast cmd] @ address_bytes addr @
                     map (\<lambda>i. ucast (data i)) [0..<n]"
      using e1 e2 e3 by (simp add: SPIFLASH_CMD_CLEAR_FLAGS_def SPIFLASH_CMD_WRITE_ENABLE_def)
    have w3: "received (e1 @ e2 @ e3) = []" using e1 e2 e3 by simp
    have out: "(\<not> bit flags SPIFLASH_BIT_FLAGS_READY \<and> res = RVLIB_SPIFLASH_ERR_TIMEOUT \<and> h' = h5) \<or>
       (bit flags SPIFLASH_BIT_FLAGS_READY \<and> \<not> bit flags eb \<and> res = 0 \<and> h' = h5) \<or>
       (bit flags SPIFLASH_BIT_FLAGS_READY \<and> bit flags eb \<and> res = RVLIB_SPIFLASH_ERR_FAILED \<and>
        spi_command_simple SPIFLASH_CMD_CLEAR_FLAGS h5 = Some h')"
      using fin by (auto simp: bind_eq_Some_conv split: if_splits)
    show thesis
      by (rule started [OF q True qe(1-4) w1 w2 w3 po p out])
  qed
qed

lemma write_sequence_result:
  assumes "spec_write_sequence cmd eb tmo freq addr data n h = Some (res, h')"
  shows "\<exists>ev. trace h' = trace h @ ev \<and> received ev \<noteq> [] \<and>
           res = result_in_order eb (ucast (hd (received ev))) (ucast (last (received ev)))"
  using assms
proof (cases rule: write_sequence_cases)
  case (notready buf q r0)
  then have "trace h' = trace h @ q \<and> received q \<noteq> [] \<and>
        res = result_in_order eb (ucast (hd (received q))) (ucast (last (received q)))"
    by (simp add: result_in_order_def)
  then show ?thesis by blast
next
  case (started buf h1 q r0 h4 w flags h5 p rs rl)
  note pre = started(2,3,5,6,7,9,11,13,14)
  from started(15) consider
      (timeout) "\<not> bit flags SPIFLASH_BIT_FLAGS_READY" "res = RVLIB_SPIFLASH_ERR_TIMEOUT" "h' = h5"
    | (ok) "bit flags SPIFLASH_BIT_FLAGS_READY" "\<not> bit flags eb" "res = 0" "h' = h5"
    | (failed) "bit flags SPIFLASH_BIT_FLAGS_READY" "bit flags eb"
        "res = RVLIB_SPIFLASH_ERR_FAILED"
        "spi_command_simple SPIFLASH_CMD_CLEAR_FLAGS h5 = Some h'"
    by blast
  then show ?thesis
  proof cases
    case timeout
    let ?ev = "q @ w @ p"
    have "trace h' = trace h @ ?ev \<and> received ?ev \<noteq> [] \<and>
        res = result_in_order eb (ucast (hd (received ?ev))) (ucast (last (received ?ev)))"
      using pre timeout by (simp add: result_in_order_def)
    then show ?thesis by blast
  next
    case ok
    let ?ev = "q @ w @ p"
    have "trace h' = trace h @ ?ev \<and> received ?ev \<noteq> [] \<and>
        res = result_in_order eb (ucast (hd (received ?ev))) (ucast (last (received ?ev)))"
      using pre ok by (simp add: result_in_order_def)
    then show ?thesis by blast
  next
    case failed
    from command_simple_events [OF failed(4)] obtain c where c:
      "trace h' = trace h5 @ c" "received c = []" by blast
    let ?ev = "q @ w @ p @ c"
    have "trace h' = trace h @ ?ev \<and> received ?ev \<noteq> [] \<and>
        res = result_in_order eb (ucast (hd (received ?ev))) (ucast (last (received ?ev)))"
      using pre failed(1-3) c by (simp add: result_in_order_def)
    then show ?thesis by blast
  qed
qed

lemma write_sequence_not_ready:
  assumes "spi_command_read SPIFLASH_CMD_READ_FLAGS (\<lambda>_. 0) 1 h = Some (buf, h1)"
    and "\<not> bit (buf 0) SPIFLASH_BIT_FLAGS_READY"
  shows "spec_write_sequence cmd eb tmo freq addr data n h =
           Some (RVLIB_SPIFLASH_ERR_NOTREADY, h1)"
  using assms by (simp add: spec_write_sequence_def)

lemma write_sequence_started:
  assumes "spi_command_read SPIFLASH_CMD_READ_FLAGS (\<lambda>_. 0) 1 h = Some (buf, h1)"
    and "bit (buf 0) SPIFLASH_BIT_FLAGS_READY"
    and "spi_command_simple SPIFLASH_CMD_CLEAR_FLAGS h1 = Some h2"
    and "spi_command_simple SPIFLASH_CMD_WRITE_ENABLE h2 = Some h3"
    and "spi_command_addr_write cmd addr data n h3 = Some h4"
    and "spiflash_poll_completion freq tmo h4 = Some (flags, h5)"
  shows "spec_write_sequence cmd eb tmo freq addr data n h =
           (if \<not> bit flags SPIFLASH_BIT_FLAGS_READY then Some (RVLIB_SPIFLASH_ERR_TIMEOUT, h5)
            else if bit flags eb
            then map_option (Pair RVLIB_SPIFLASH_ERR_FAILED)
                   (spi_command_simple SPIFLASH_CMD_CLEAR_FLAGS h5)
            else Some (0, h5))"
proof -
  have m: "\<And>x :: hw option. x \<bind> (\<lambda>h6. Some (RVLIB_SPIFLASH_ERR_FAILED, h6)) =
             map_option (Pair RVLIB_SPIFLASH_ERR_FAILED) x"
    by (case_tac x) simp_all
  show ?thesis using assms by (simp add: spec_write_sequence_def m)
qed

text \<open>
  C2. For both \<open>rvlib_spiflash_page_program\<close> and \<open>rvlib_spiflash_sector_erase\<close>,
  the value returned is decided by the first flag byte that the call received (the
  pre-flight query) and the last one (the one that the completion poll returned), in this
  order: NOT\_READY when the first has READY clear; else TIMEOUT when the last has READY
  clear; else FAILED when the last has the error flag of the operation set; else 0. The
  four values are distinct, so the three errors exclude each other. And the functions do
  return these values: when the pre-flight query returns a byte with READY clear, both
  return NOT\_READY in the state after the query; when the query returns a byte with READY
  set and the clear-flags, write-enable and command transactions and the completion poll
  return, the function returns TIMEOUT if the polled byte has READY clear, else FAILED
  after the CLEAR\_FLAGS command if it has the error flag set, and in every other case 0,
  in the state that the poll left.
\<close>

theorem write_results_in_order:
  "(rvlib_spiflash_page_program freq address data nbytes h = Some (res, h') \<longrightarrow>
      (\<exists>ev. trace h' = trace h @ ev \<and> received ev \<noteq> [] \<and>
         res = result_in_order SPIFLASH_BIT_FLAGS_PROGRAM_ERROR
                 (ucast (hd (received ev))) (ucast (last (received ev))))) \<and>
   (rvlib_spiflash_sector_erase freq address h = Some (res, h') \<longrightarrow>
      (\<exists>ev. trace h' = trace h @ ev \<and> received ev \<noteq> [] \<and>
         res = result_in_order SPIFLASH_BIT_FLAGS_ERASE_ERROR
                 (ucast (hd (received ev))) (ucast (last (received ev))))) \<and>
   distinct [0, RVLIB_SPIFLASH_ERR_FAILED, RVLIB_SPIFLASH_ERR_TIMEOUT,
             RVLIB_SPIFLASH_ERR_NOTREADY] \<and>
   (spi_command_read SPIFLASH_CMD_READ_FLAGS (\<lambda>_. 0) 1 h = Some (buf, h1) \<longrightarrow>
    \<not> bit (buf 0) SPIFLASH_BIT_FLAGS_READY \<longrightarrow>
      rvlib_spiflash_page_program freq address data nbytes h =
        Some (RVLIB_SPIFLASH_ERR_NOTREADY, h1) \<and>
      rvlib_spiflash_sector_erase freq address h = Some (RVLIB_SPIFLASH_ERR_NOTREADY, h1)) \<and>
   (spi_command_read SPIFLASH_CMD_READ_FLAGS (\<lambda>_. 0) 1 h = Some (buf, h1) \<longrightarrow>
    bit (buf 0) SPIFLASH_BIT_FLAGS_READY \<longrightarrow>
    spi_command_simple SPIFLASH_CMD_CLEAR_FLAGS h1 = Some h2 \<longrightarrow>
    spi_command_simple SPIFLASH_CMD_WRITE_ENABLE h2 = Some h3 \<longrightarrow>
    spi_command_addr_write SPIFLASH_CMD_PAGE_PROGRAM address data nbytes h3 = Some h4 \<longrightarrow>
    spiflash_poll_completion freq SPIFLASH_PROGRAM_TIMEOUT_US h4 = Some (flags, h5) \<longrightarrow>
      rvlib_spiflash_page_program freq address data nbytes h =
        (if \<not> bit flags SPIFLASH_BIT_FLAGS_READY then Some (RVLIB_SPIFLASH_ERR_TIMEOUT, h5)
         else if bit flags SPIFLASH_BIT_FLAGS_PROGRAM_ERROR
         then map_option (Pair RVLIB_SPIFLASH_ERR_FAILED)
                (spi_command_simple SPIFLASH_CMD_CLEAR_FLAGS h5)
         else Some (0, h5))) \<and>
   (spi_command_read SPIFLASH_CMD_READ_FLAGS (\<lambda>_. 0) 1 h = Some (buf, h1) \<longrightarrow>
    bit (buf 0) SPIFLASH_BIT_FLAGS_READY \<longrightarrow>
    spi_command_simple SPIFLASH_CMD_CLEAR_FLAGS h1 = Some h2 \<longrightarrow>
    spi_command_simple SPIFLASH_CMD_WRITE_ENABLE h2 = Some h3 \<longrightarrow>
    spi_command_addr_write SPIFLASH_CMD_SECTOR_ERASE address (\<lambda>_. 0) 0 h3 = Some h4 \<longrightarrow>
    spiflash_poll_completion freq SPIFLASH_ERASE_TIMEOUT_US h4 = Some (flags, h5) \<longrightarrow>
      rvlib_spiflash_sector_erase freq address h =
        (if \<not> bit flags SPIFLASH_BIT_FLAGS_READY then Some (RVLIB_SPIFLASH_ERR_TIMEOUT, h5)
         else if bit flags SPIFLASH_BIT_FLAGS_ERASE_ERROR
         then map_option (Pair RVLIB_SPIFLASH_ERR_FAILED)
                (spi_command_simple SPIFLASH_CMD_CLEAR_FLAGS h5)
         else Some (0, h5)))"
proof (intro conjI impI)
  assume "rvlib_spiflash_page_program freq address data nbytes h = Some (res, h')"
  then show "\<exists>ev. trace h' = trace h @ ev \<and> received ev \<noteq> [] \<and>
         res = result_in_order SPIFLASH_BIT_FLAGS_PROGRAM_ERROR
                 (ucast (hd (received ev))) (ucast (last (received ev)))"
    unfolding page_program_sequence by (rule write_sequence_result)
next
  assume "rvlib_spiflash_sector_erase freq address h = Some (res, h')"
  then show "\<exists>ev. trace h' = trace h @ ev \<and> received ev \<noteq> [] \<and>
         res = result_in_order SPIFLASH_BIT_FLAGS_ERASE_ERROR
                 (ucast (hd (received ev))) (ucast (last (received ev)))"
    unfolding sector_erase_sequence by (rule write_sequence_result)
next
  show "distinct [0, RVLIB_SPIFLASH_ERR_FAILED, RVLIB_SPIFLASH_ERR_TIMEOUT,
             RVLIB_SPIFLASH_ERR_NOTREADY]"
    by (simp add: src_consts)
next
  assume "spi_command_read SPIFLASH_CMD_READ_FLAGS (\<lambda>_. 0) 1 h = Some (buf, h1)"
    "\<not> bit (buf 0) SPIFLASH_BIT_FLAGS_READY"
  then show "rvlib_spiflash_page_program freq address data nbytes h =
        Some (RVLIB_SPIFLASH_ERR_NOTREADY, h1)"
    unfolding page_program_sequence by (rule write_sequence_not_ready)
next
  assume "spi_command_read SPIFLASH_CMD_READ_FLAGS (\<lambda>_. 0) 1 h = Some (buf, h1)"
    "\<not> bit (buf 0) SPIFLASH_BIT_FLAGS_READY"
  then show "rvlib_spiflash_sector_erase freq address h =
        Some (RVLIB_SPIFLASH_ERR_NOTREADY, h1)"
    unfolding sector_erase_sequence by (rule write_sequence_not_ready)
next
  assume "spi_command_read SPIFLASH_CMD_READ_FLAGS (\<lambda>_. 0) 1 h = Some (buf, h1)"
    "bit (buf 0) SPIFLASH_BIT_FLAGS_READY"
    "spi_command_simple SPIFLASH_CMD_CLEAR_FLAGS h1 = Some h2"
    "spi_command_simple SPIFLASH_CMD_WRITE_ENABLE h2 = Some h3"
    "spi_command_addr_write SPIFLASH_CMD_PAGE_PROGRAM address data nbytes h3 = Some h4"
    "spiflash_poll_completion freq SPIFLASH_PROGRAM_TIMEOUT_US h4 = Some (flags, h5)"
  then show "rvlib_spiflash_page_program freq address data nbytes h =
        (if \<not> bit flags SPIFLASH_BIT_FLAGS_READY then Some (RVLIB_SPIFLASH_ERR_TIMEOUT, h5)
         else if bit flags SPIFLASH_BIT_FLAGS_PROGRAM_ERROR
         then map_option (Pair RVLIB_SPIFLASH_ERR_FAILED)
                (spi_command_simple SPIFLASH_CMD_CLEAR_FLAGS h5)
         else Some (0, h5))"
    unfolding page_program_sequence by (rule write_sequence_started)
next
  assume "spi_command_read SPIFLASH_CMD_READ_FLAGS (\<lambda>_. 0) 1 h = Some (buf, h1)"
    "bit (buf 0) SPIFLASH_BIT_FLAGS_READY"
    "spi_command_simple SPIFLASH_CMD_CLEAR_FLAGS h1 = Some h2"
    "spi_command_simple SPIFLASH_CMD_WRITE_ENABLE h2 = Some h3"
    "spi_command_addr_write SPIFLASH_CMD_SECTOR_ERASE address (\<lambda>_. 0) 0 h3 = Some h4"
    "spiflash_poll_completion freq SPIFLASH_ERASE_TIMEOUT_US h4 = Some (flags, h5)"
  then show "rvlib_spiflash_sector_erase freq address h =
        (if \<not> bit flags SPIFLASH_BIT_FLAGS_READY then Some (RVLIB_SPIFLASH_ERR_TIMEOUT, h5)
         else if bit flags SPIFLASH_BIT_FLAGS_ERASE_ERROR
         then map_option (Pair RVLIB_SPIFLASH_ERR_FAILED)
                (spi_command_simple SPIFLASH_CMD_CLEAR_FLAGS h5)
         else Some (0, h5))"
    unfolding sector_erase_sequence by (rule write_sequence_started)
qed
lemma result_of_run: "map_option fst x = Some r \<Longrightarrow> \<exists>h'. x = Some (r, h')"
  by (cases x) auto

theorem write_results_in_order_witness:
  "rvlib_spiflash_page_program 50 0x7F0000 (\<lambda>_. 0xAB) 1
     (write_run 0x80 [2, 2, 2, 2, 2, 0] 0x80 [0, 1]) =
   Some (0, \<lparr>reads = [2, 0], cycles = [1],
     trace = [Rd 0 2, Wr 8 0x70, Rd 0 2, Wr 8 0x100, Rd 0 4, Rd 8 0x80, Rd 0 0, Wr 4 0,
              Rd 0 2, Wr 8 0x50, Rd 0 0, Wr 4 0,
              Rd 0 2, Wr 8 0x06, Rd 0 0, Wr 4 0,
              Rd 0 2, Wr 8 0x02, Rd 0 2, Wr 8 0x7F, Rd 0 2, Wr 8 0, Rd 0 2, Wr 8 0,
              Rd 0 2, Wr 8 0xAB, Rd 0 0, Wr 4 0,
              Cyc 0,
              Rd 0 2, Wr 8 0x70, Rd 0 2, Wr 8 0x100, Rd 0 4, Rd 8 0x80, Rd 0 0, Wr 4 0]\<rparr>) \<and>
   rvlib_spiflash_sector_erase 50 0x7F0000
     (write_run 0x80 [2, 2, 2, 2, 0] 0x80 [0, 1]) =
   Some (0, \<lparr>reads = [2, 0], cycles = [1],
     trace = [Rd 0 2, Wr 8 0x70, Rd 0 2, Wr 8 0x100, Rd 0 4, Rd 8 0x80, Rd 0 0, Wr 4 0,
              Rd 0 2, Wr 8 0x50, Rd 0 0, Wr 4 0,
              Rd 0 2, Wr 8 0x06, Rd 0 0, Wr 4 0,
              Rd 0 2, Wr 8 0xD8, Rd 0 2, Wr 8 0x7F, Rd 0 2, Wr 8 0, Rd 0 2, Wr 8 0,
              Rd 0 0, Wr 4 0,
              Cyc 0,
              Rd 0 2, Wr 8 0x70, Rd 0 2, Wr 8 0x100, Rd 0 4, Rd 8 0x80, Rd 0 0, Wr 4 0]\<rparr>) \<and>
   rvlib_spiflash_page_program 50 0x7F0000 (\<lambda>_. 0xAB) 1 (hw_of (flag_query 0x20) []) =
     Some (RVLIB_SPIFLASH_ERR_NOTREADY, \<lparr>reads = [], cycles = [],
       trace = [Rd 0 2, Wr 8 0x70, Rd 0 2, Wr 8 0x100, Rd 0 4, Rd 8 0x20, Rd 0 0, Wr 4 0]\<rparr>) \<and>
   rvlib_spiflash_sector_erase 50 0x7F0000 (hw_of (flag_query 0x20) []) =
     Some (RVLIB_SPIFLASH_ERR_NOTREADY, \<lparr>reads = [], cycles = [],
       trace = [Rd 0 2, Wr 8 0x70, Rd 0 2, Wr 8 0x100, Rd 0 4, Rd 8 0x20, Rd 0 0, Wr 4 0]\<rparr>) \<and>
   (\<exists>h' ev. rvlib_spiflash_page_program 50 0x7F0000 (\<lambda>_. 0xAB) 1
              (write_run 0x80 [2, 2, 2, 2, 2, 0] 0x90 [0, 1]) =
            Some (RVLIB_SPIFLASH_ERR_FAILED, h') \<and>
     trace h' = trace (write_run 0x80 [2, 2, 2, 2, 2, 0] 0x90 [0, 1]) @ ev \<and>
     RVLIB_SPIFLASH_ERR_FAILED =
       result_in_order SPIFLASH_BIT_FLAGS_PROGRAM_ERROR
         (ucast (hd (received ev))) (ucast (last (received ev)))) \<and>
   (\<exists>h' ev. rvlib_spiflash_sector_erase 50 0x7F0000
              (write_run 0x80 [2, 2, 2, 2, 0] 0x20 [0, 150000001]) =
            Some (RVLIB_SPIFLASH_ERR_TIMEOUT, h') \<and>
     trace h' = trace (write_run 0x80 [2, 2, 2, 2, 0] 0x20 [0, 150000001]) @ ev \<and>
     RVLIB_SPIFLASH_ERR_TIMEOUT =
       result_in_order SPIFLASH_BIT_FLAGS_ERASE_ERROR
         (ucast (hd (received ev))) (ucast (last (received ev))))"
proof -
  note w = write_results_in_order
  note started = w [THEN conjunct2, THEN conjunct2, THEN conjunct2, THEN conjunct2]
  let ?q = "[Rd 0 2, Wr 8 0x70, Rd 0 2, Wr 8 0x100, Rd 0 4, Rd 8 0x80, Rd 0 0, Wr 4 0]"
  let ?c = "[Rd 0 2, Wr 8 0x50, Rd 0 0, Wr 4 0]"
  let ?e = "[Rd 0 2, Wr 8 0x06, Rd 0 0, Wr 4 0]"
  let ?p = "[Rd 0 2, Wr 8 0x02, Rd 0 2, Wr 8 0x7F, Rd 0 2, Wr 8 0, Rd 0 2, Wr 8 0,
             Rd 0 2, Wr 8 0xAB, Rd 0 0, Wr 4 0]"
  let ?s = "[Rd 0 2, Wr 8 0xD8, Rd 0 2, Wr 8 0x7F, Rd 0 2, Wr 8 0, Rd 0 2, Wr 8 0,
             Rd 0 0, Wr 4 0]"
  have rdy: "bit (((\<lambda>_. 0)(0 := 0x80)) (0::nat) :: 8 word) SPIFLASH_BIT_FLAGS_READY"
    by (simp add: src_consts bit_iff_odd)
  have fl: "bit (0x80 :: 8 word) SPIFLASH_BIT_FLAGS_READY"
    "\<not> bit (0x80 :: 8 word) SPIFLASH_BIT_FLAGS_PROGRAM_ERROR"
    "\<not> bit (0x80 :: 8 word) SPIFLASH_BIT_FLAGS_ERASE_ERROR"
    by (simp_all add: src_consts bit_iff_odd)
  txt \<open>Page Program, every step answered at once, the poll returns 0x80.\<close>
  let ?P = "write_run 0x80 [2, 2, 2, 2, 2, 0] 0x80 [0, 1]"
  let ?Pa = "\<lparr>reads = [2, 0, 2, 0, 2, 2, 2, 2, 2, 0, 2, 2, 4, 0x80, 0, 2, 0],
              cycles = [0, 1], trace = ?q\<rparr>"
  let ?Pb = "\<lparr>reads = [2, 0, 2, 2, 2, 2, 2, 0, 2, 2, 4, 0x80, 0, 2, 0],
              cycles = [0, 1], trace = ?q @ ?c\<rparr>"
  let ?Pc = "\<lparr>reads = [2, 2, 2, 2, 2, 0, 2, 2, 4, 0x80, 0, 2, 0],
              cycles = [0, 1], trace = ?q @ ?c @ ?e\<rparr>"
  let ?Pd = "\<lparr>reads = [2, 2, 4, 0x80, 0, 2, 0],
              cycles = [0, 1], trace = ?q @ ?c @ ?e @ ?p\<rparr>"
  let ?Pe = "\<lparr>reads = [2, 0], cycles = [1], trace = ?q @ ?c @ ?e @ ?p @ Cyc 0 # ?q\<rparr>"
  have p1: "spi_command_read SPIFLASH_CMD_READ_FLAGS (\<lambda>_. 0) 1 ?P =
              Some ((\<lambda>_. 0)(0 := 0x80), ?Pa)"
    by (simp add: run_simps command_simps src_consts write_run_def flag_query_def)
  have p2: "spi_command_simple SPIFLASH_CMD_CLEAR_FLAGS ?Pa = Some ?Pb"
    by (simp add: run_simps command_simps src_consts)
  have p3: "spi_command_simple SPIFLASH_CMD_WRITE_ENABLE ?Pb = Some ?Pc"
    by (simp add: run_simps command_simps src_consts)
  have p4: "spi_command_addr_write SPIFLASH_CMD_PAGE_PROGRAM 0x7F0000 (\<lambda>_. 0xAB) 1 ?Pc =
              Some ?Pd"
    by (simp add: run_simps command_simps src_consts)
  have p5: "spiflash_poll_completion 50 SPIFLASH_PROGRAM_TIMEOUT_US ?Pd = Some (0x80, ?Pe)"
    by (simp add: run_simps command_simps poll_simps src_consts)
  have a: "rvlib_spiflash_page_program 50 0x7F0000 (\<lambda>_. 0xAB) 1 ?P = Some (0, ?Pe)"
    by (subst started [THEN conjunct1, rule_format, OF p1 rdy p2 p3 p4 p5])
       (simp only: fl simp_thms if_True if_False)
  txt \<open>Sector Erase, the same.\<close>
  let ?S = "write_run 0x80 [2, 2, 2, 2, 0] 0x80 [0, 1]"
  let ?Sa = "\<lparr>reads = [2, 0, 2, 0, 2, 2, 2, 2, 0, 2, 2, 4, 0x80, 0, 2, 0],
              cycles = [0, 1], trace = ?q\<rparr>"
  let ?Sb = "\<lparr>reads = [2, 0, 2, 2, 2, 2, 0, 2, 2, 4, 0x80, 0, 2, 0],
              cycles = [0, 1], trace = ?q @ ?c\<rparr>"
  let ?Sc = "\<lparr>reads = [2, 2, 2, 2, 0, 2, 2, 4, 0x80, 0, 2, 0],
              cycles = [0, 1], trace = ?q @ ?c @ ?e\<rparr>"
  let ?Sd = "\<lparr>reads = [2, 2, 4, 0x80, 0, 2, 0],
              cycles = [0, 1], trace = ?q @ ?c @ ?e @ ?s\<rparr>"
  let ?Se = "\<lparr>reads = [2, 0], cycles = [1], trace = ?q @ ?c @ ?e @ ?s @ Cyc 0 # ?q\<rparr>"
  have s1: "spi_command_read SPIFLASH_CMD_READ_FLAGS (\<lambda>_. 0) 1 ?S =
              Some ((\<lambda>_. 0)(0 := 0x80), ?Sa)"
    by (simp add: run_simps command_simps src_consts write_run_def flag_query_def)
  have s2: "spi_command_simple SPIFLASH_CMD_CLEAR_FLAGS ?Sa = Some ?Sb"
    by (simp add: run_simps command_simps src_consts)
  have s3: "spi_command_simple SPIFLASH_CMD_WRITE_ENABLE ?Sb = Some ?Sc"
    by (simp add: run_simps command_simps src_consts)
  have s4: "spi_command_addr_write SPIFLASH_CMD_SECTOR_ERASE 0x7F0000 (\<lambda>_. 0) 0 ?Sc =
              Some ?Sd"
    by (simp add: run_simps command_simps src_consts)
  have s5: "spiflash_poll_completion 50 SPIFLASH_ERASE_TIMEOUT_US ?Sd = Some (0x80, ?Se)"
    by (simp add: run_simps command_simps poll_simps src_consts)
  have b: "rvlib_spiflash_sector_erase 50 0x7F0000 ?S = Some (0, ?Se)"
    by (subst started [THEN conjunct2, rule_format, OF s1 rdy s2 s3 s4 s5])
       (simp only: fl simp_thms if_True if_False)
  txt \<open>Not ready.\<close>
  have n1: "spi_command_read SPIFLASH_CMD_READ_FLAGS (\<lambda>_. 0) 1 (hw_of (flag_query 0x20) []) =
     Some ((\<lambda>_. 0)(0 := 0x20), \<lparr>reads = [], cycles = [],
       trace = [Rd 0 2, Wr 8 0x70, Rd 0 2, Wr 8 0x100, Rd 0 4, Rd 8 0x20, Rd 0 0, Wr 4 0]\<rparr>)"
    by (simp add: run_simps command_simps src_consts flag_query_def)
  have nr: "\<not> bit (((\<lambda>_. 0)(0 := 0x20)) (0::nat) :: 8 word) SPIFLASH_BIT_FLAGS_READY"
    by (simp add: src_consts)
  note nrd = w [THEN conjunct2, THEN conjunct2, THEN conjunct2, THEN conjunct1, rule_format,
      OF n1 nr]
  note c = nrd [THEN conjunct1, of 50 "0x7F0000" "\<lambda>_. 0xAB" 1]
  note c' = nrd [THEN conjunct2, of 50 "0x7F0000"]
  txt \<open>Failed and timeout.\<close>
  have "map_option fst (rvlib_spiflash_page_program 50 0x7F0000 (\<lambda>_. 0xAB) 1
          (write_run 0x80 [2, 2, 2, 2, 2, 0] 0x90 [0, 1])) = Some RVLIB_SPIFLASH_ERR_FAILED"
    by code_simp
  from result_of_run [OF this] obtain h' where run: "rvlib_spiflash_page_program 50 0x7F0000 (\<lambda>_. 0xAB) 1
          (write_run 0x80 [2, 2, 2, 2, 2, 0] 0x90 [0, 1]) = Some (RVLIB_SPIFLASH_ERR_FAILED, h')"
    by (rule exE)
  from w [THEN conjunct1, rule_format, OF run] run
  have d: "\<exists>h' ev. rvlib_spiflash_page_program 50 0x7F0000 (\<lambda>_. 0xAB) 1
              (write_run 0x80 [2, 2, 2, 2, 2, 0] 0x90 [0, 1]) =
            Some (RVLIB_SPIFLASH_ERR_FAILED, h') \<and>
     trace h' = trace (write_run 0x80 [2, 2, 2, 2, 2, 0] 0x90 [0, 1]) @ ev \<and>
     RVLIB_SPIFLASH_ERR_FAILED =
       result_in_order SPIFLASH_BIT_FLAGS_PROGRAM_ERROR
         (ucast (hd (received ev))) (ucast (last (received ev)))"
    by blast
  have "map_option fst (rvlib_spiflash_sector_erase 50 0x7F0000
          (write_run 0x80 [2, 2, 2, 2, 0] 0x20 [0, 150000001])) = Some RVLIB_SPIFLASH_ERR_TIMEOUT"
    by code_simp
  from result_of_run [OF this] obtain h'' where run2: "rvlib_spiflash_sector_erase 50 0x7F0000
          (write_run 0x80 [2, 2, 2, 2, 0] 0x20 [0, 150000001]) = Some (RVLIB_SPIFLASH_ERR_TIMEOUT, h'')"
    by (rule exE)
  from w [THEN conjunct2, THEN conjunct1, rule_format, OF run2] run2
  have e: "\<exists>h' ev. rvlib_spiflash_sector_erase 50 0x7F0000
              (write_run 0x80 [2, 2, 2, 2, 0] 0x20 [0, 150000001]) =
            Some (RVLIB_SPIFLASH_ERR_TIMEOUT, h') \<and>
     trace h' = trace (write_run 0x80 [2, 2, 2, 2, 0] 0x20 [0, 150000001]) @ ev \<and>
     RVLIB_SPIFLASH_ERR_TIMEOUT =
       result_in_order SPIFLASH_BIT_FLAGS_ERASE_ERROR
         (ucast (hd (received ev))) (ucast (last (received ev)))"
    by blast
  from a have a': "rvlib_spiflash_page_program 50 0x7F0000 (\<lambda>_. 0xAB) 1 ?P =
     Some (0, \<lparr>reads = [2, 0], cycles = [1],
     trace = [Rd 0 2, Wr 8 0x70, Rd 0 2, Wr 8 0x100, Rd 0 4, Rd 8 0x80, Rd 0 0, Wr 4 0,
              Rd 0 2, Wr 8 0x50, Rd 0 0, Wr 4 0,
              Rd 0 2, Wr 8 0x06, Rd 0 0, Wr 4 0,
              Rd 0 2, Wr 8 0x02, Rd 0 2, Wr 8 0x7F, Rd 0 2, Wr 8 0, Rd 0 2, Wr 8 0,
              Rd 0 2, Wr 8 0xAB, Rd 0 0, Wr 4 0,
              Cyc 0,
              Rd 0 2, Wr 8 0x70, Rd 0 2, Wr 8 0x100, Rd 0 4, Rd 8 0x80, Rd 0 0, Wr 4 0]\<rparr>)"
    by simp
  from b have b': "rvlib_spiflash_sector_erase 50 0x7F0000 ?S =
     Some (0, \<lparr>reads = [2, 0], cycles = [1],
     trace = [Rd 0 2, Wr 8 0x70, Rd 0 2, Wr 8 0x100, Rd 0 4, Rd 8 0x80, Rd 0 0, Wr 4 0,
              Rd 0 2, Wr 8 0x50, Rd 0 0, Wr 4 0,
              Rd 0 2, Wr 8 0x06, Rd 0 0, Wr 4 0,
              Rd 0 2, Wr 8 0xD8, Rd 0 2, Wr 8 0x7F, Rd 0 2, Wr 8 0, Rd 0 2, Wr 8 0,
              Rd 0 0, Wr 4 0,
              Cyc 0,
              Rd 0 2, Wr 8 0x70, Rd 0 2, Wr 8 0x100, Rd 0 4, Rd 8 0x80, Rd 0 0, Wr 4 0]\<rparr>)"
    by simp
  show ?thesis
    by (intro conjI a' b' c c' d e)
qed

text \<open>
  C3. When the pre-flight READ\_FLAGS transaction of \<open>rvlib_spiflash_page_program\<close> or
  \<open>rvlib_spiflash_sector_erase\<close> returns a flag byte with READY (bit 7) clear, the call
  returns NOT\_READY in the state that this one transaction leaves: the bytes written to
  DATA are the command 0x70 and at most one dummy request, one byte is received, and the
  transaction ends with the deselect. No other command byte is sent.
\<close>

theorem not_ready_sends_only_query:
  assumes "spi_command_read SPIFLASH_CMD_READ_FLAGS (\<lambda>_. 0) 1 h = Some (buf, h1)"
    and "\<not> bit (buf 0) SPIFLASH_BIT_FLAGS_READY"
  shows "rvlib_spiflash_page_program freq address data nbytes h =
           Some (RVLIB_SPIFLASH_ERR_NOTREADY, h1) \<and>
         rvlib_spiflash_sector_erase freq address h =
           Some (RVLIB_SPIFLASH_ERR_NOTREADY, h1) \<and>
         (\<exists>ev s k. transaction h h1 ev s \<and> k \<le> 1 \<and>
            sent ev = ucast SPIFLASH_CMD_READ_FLAGS # replicate k 0x100 \<and>
            commands ev = [ucast SPIFLASH_CMD_READ_FLAGS] \<and>
            length (received ev) = 1)"
proof -
  from command_read_trace [OF assms(1)] obtain ev s k where ev:
    "transaction h h1 ev s" "k \<le> 1"
    "sent ev = ucast SPIFLASH_CMD_READ_FLAGS # replicate k 0x100"
    "length (received ev) = 1" by blast
  from ev(3) have "commands ev = [ucast SPIFLASH_CMD_READ_FLAGS]"
    by (simp add: commands_def)
  with ev have "\<exists>ev s k. transaction h h1 ev s \<and> k \<le> 1 \<and>
            sent ev = ucast SPIFLASH_CMD_READ_FLAGS # replicate k 0x100 \<and>
            commands ev = [ucast SPIFLASH_CMD_READ_FLAGS] \<and>
            length (received ev) = 1" by blast
  then show ?thesis
    using write_sequence_not_ready [OF assms]
    by (simp add: page_program_sequence sector_erase_sequence)
qed

theorem not_ready_sends_only_query_witness:
  "rvlib_spiflash_page_program 50 0x7F0000 (\<lambda>_. 0xAB) 1 (hw_of (flag_query 0x20) []) =
     Some (RVLIB_SPIFLASH_ERR_NOTREADY, \<lparr>reads = [], cycles = [],
       trace = [Rd 0 2, Wr 8 0x70, Rd 0 2, Wr 8 0x100, Rd 0 4, Rd 8 0x20, Rd 0 0, Wr 4 0]\<rparr>) \<and>
   rvlib_spiflash_sector_erase 50 0x7F0000 (hw_of (flag_query 0x20) []) =
     Some (RVLIB_SPIFLASH_ERR_NOTREADY, \<lparr>reads = [], cycles = [],
       trace = [Rd 0 2, Wr 8 0x70, Rd 0 2, Wr 8 0x100, Rd 0 4, Rd 8 0x20, Rd 0 0, Wr 4 0]\<rparr>)"
proof -
  have q: "spi_command_read SPIFLASH_CMD_READ_FLAGS (\<lambda>_. 0) 1 (hw_of (flag_query 0x20) []) =
     Some ((\<lambda>_. 0)(0 := 0x20), \<lparr>reads = [], cycles = [],
       trace = [Rd 0 2, Wr 8 0x70, Rd 0 2, Wr 8 0x100, Rd 0 4, Rd 8 0x20, Rd 0 0, Wr 4 0]\<rparr>)"
    by (simp add: run_simps command_simps src_consts flag_query_def)
  have nr: "\<not> bit (((\<lambda>_. 0)(0 := 0x20)) (0::nat) :: 8 word) SPIFLASH_BIT_FLAGS_READY"
    by (simp add: src_consts)
  from not_ready_sends_only_query [OF q nr] show ?thesis by blast
qed







lemma trace_write_run [simp]: "trace (write_run f1 ws f2 cs) = []"
  by (simp add: write_run_def hw_of_def)


text \<open>
  C6 as stated fails. On the same answers of the hardware, with an empty payload for both
  and a first poll that returns the flag byte 0xA0 (READY and ERASE\_ERROR, so no timeout
  is reached), \<open>rvlib_spiflash_page_program\<close> returns 0 and
  \<open>rvlib_spiflash_sector_erase\<close> returns FAILED: they differ in more than the command
  code, the payload and the timeout. Likewise the sequence of Page Program with only these
  three replaced tests PROGRAM\_ERROR and returns 0 where \<open>rvlib_spiflash_sector_erase\<close>
  returns FAILED.
\<close>

theorem sector_erase_sequence_counterexample:
  "map_option fst (rvlib_spiflash_page_program 50 0x7F0000 (\<lambda>_. 0) 0
      (write_run 0x80 [2, 2, 2, 2, 0] 0xA0 [0, 1])) = Some 0 \<and>
   map_option fst (rvlib_spiflash_sector_erase 50 0x7F0000
      (write_run 0x80 [2, 2, 2, 2, 0] 0xA0 [0, 1])) = Some RVLIB_SPIFLASH_ERR_FAILED \<and>
   map_option fst (spec_write_sequence SPIFLASH_CMD_SECTOR_ERASE
      SPIFLASH_BIT_FLAGS_PROGRAM_ERROR SPIFLASH_ERASE_TIMEOUT_US 50 0x7F0000 (\<lambda>_. 0) 0
      (write_run 0x80 [2, 2, 2, 2, 0] 0xA0 [0, 1])) = Some 0 \<and>
   rvlib_spiflash_sector_erase 50 0x7F0000 (write_run 0x80 [2, 2, 2, 2, 0] 0xA0 [0, 1]) \<noteq>
   spec_write_sequence SPIFLASH_CMD_SECTOR_ERASE
      SPIFLASH_BIT_FLAGS_PROGRAM_ERROR SPIFLASH_ERASE_TIMEOUT_US 50 0x7F0000 (\<lambda>_. 0) 0
      (write_run 0x80 [2, 2, 2, 2, 0] 0xA0 [0, 1])"
proof -
  have p: "map_option fst (rvlib_spiflash_page_program 50 0x7F0000 (\<lambda>_. 0) 0
      (write_run 0x80 [2, 2, 2, 2, 0] 0xA0 [0, 1])) = Some 0"
    by code_simp
  have a: "map_option fst (rvlib_spiflash_sector_erase 50 0x7F0000
      (write_run 0x80 [2, 2, 2, 2, 0] 0xA0 [0, 1])) = Some RVLIB_SPIFLASH_ERR_FAILED"
    by code_simp
  have b: "map_option fst (spec_write_sequence SPIFLASH_CMD_SECTOR_ERASE
      SPIFLASH_BIT_FLAGS_PROGRAM_ERROR SPIFLASH_ERASE_TIMEOUT_US 50 0x7F0000 (\<lambda>_. 0) 0
      (write_run 0x80 [2, 2, 2, 2, 0] 0xA0 [0, 1])) = Some 0"
    by code_simp
  have "Some RVLIB_SPIFLASH_ERR_FAILED \<noteq> Some (0 :: int)"
    by (simp add: RVLIB_SPIFLASH_ERR_FAILED_def)
  with a b have "rvlib_spiflash_sector_erase 50 0x7F0000
      (write_run 0x80 [2, 2, 2, 2, 0] 0xA0 [0, 1]) \<noteq>
    spec_write_sequence SPIFLASH_CMD_SECTOR_ERASE
      SPIFLASH_BIT_FLAGS_PROGRAM_ERROR SPIFLASH_ERASE_TIMEOUT_US 50 0x7F0000 (\<lambda>_. 0) 0
      (write_run 0x80 [2, 2, 2, 2, 0] 0xA0 [0, 1])"
    by metis
  with p a b show ?thesis by blast
qed

text \<open>The command and data bytes that a run of the sequence sends, in order.\<close>

lemma write_sequence_commands:
  assumes "spec_write_sequence cmd eb tmo freq addr data n h = Some (res, h')"
  shows "\<exists>ev k. trace h' = trace h @ ev \<and>
           commands ev =
             (if res = RVLIB_SPIFLASH_ERR_NOTREADY then [0x70]
              else [0x70, 0x50, 0x06, ucast cmd] @ address_bytes addr @
                   map (\<lambda>i. ucast (data i)) [0..<n] @ replicate (Suc k) 0x70 @
                   (if res = RVLIB_SPIFLASH_ERR_FAILED then [0x50] else []))"
  using assms
proof (cases rule: write_sequence_cases)
  case (notready buf q r0)
  then have "trace h' = trace h @ q \<and>
           commands q =
             (if res = RVLIB_SPIFLASH_ERR_NOTREADY then [0x70]
              else [0x70, 0x50, 0x06, ucast cmd] @ address_bytes addr @
                   map (\<lambda>i. ucast (data i)) [0..<n] @ replicate (Suc 0) 0x70 @
                   (if res = RVLIB_SPIFLASH_ERR_FAILED then [0x50] else []))"
    by simp
  then show ?thesis by blast
next
  case (started buf h1 q r0 h4 w flags h5 p rs rl)
  note pre = started(3,4,7,8,11,12)
  from started(15) consider
      (plain) "res \<noteq> RVLIB_SPIFLASH_ERR_NOTREADY" "res \<noteq> RVLIB_SPIFLASH_ERR_FAILED" "h' = h5"
    | (failed) "res = RVLIB_SPIFLASH_ERR_FAILED"
        "spi_command_simple SPIFLASH_CMD_CLEAR_FLAGS h5 = Some h'"
    by (auto simp: src_consts)
  then show ?thesis
  proof cases
    case plain
    let ?ev = "q @ w @ p"
    have "trace h' = trace h @ ?ev \<and>
           commands ?ev =
             (if res = RVLIB_SPIFLASH_ERR_NOTREADY then [0x70]
              else [0x70, 0x50, 0x06, ucast cmd] @ address_bytes addr @
                   map (\<lambda>i. ucast (data i)) [0..<n] @ replicate (Suc (length rs)) 0x70 @
                   (if res = RVLIB_SPIFLASH_ERR_FAILED then [0x50] else []))"
      using pre plain by (simp del: replicate_Suc)
    then show ?thesis by blast
  next
    case failed
    from command_simple_events [OF failed(2)] obtain c where c:
      "trace h' = trace h5 @ c" "commands c = [ucast SPIFLASH_CMD_CLEAR_FLAGS]" by blast
    let ?ev = "q @ w @ p @ c"
    have "trace h' = trace h @ ?ev \<and>
           commands ?ev =
             (if res = RVLIB_SPIFLASH_ERR_NOTREADY then [0x70]
              else [0x70, 0x50, 0x06, ucast cmd] @ address_bytes addr @
                   map (\<lambda>i. ucast (data i)) [0..<n] @ replicate (Suc (length rs)) 0x70 @
                   (if res = RVLIB_SPIFLASH_ERR_FAILED then [0x50] else []))"
      using pre failed(1) c
      by (simp add: SPIFLASH_CMD_CLEAR_FLAGS_def RVLIB_SPIFLASH_ERR_FAILED_def
            RVLIB_SPIFLASH_ERR_NOTREADY_def del: replicate_Suc)
    then show ?thesis by blast
  qed
qed

text \<open>
  C6 (as amended). \<open>rvlib_spiflash_sector_erase(address)\<close> runs the same state sequence as
  \<open>rvlib_spiflash_page_program\<close> (pre-flight readiness check, clear flags, write enable,
  command and address, completion poll, result) and sends the same command bytes in the
  same order (0x70; then 0x50, 0x06, the command code, three address bytes, the payload,
  one or more 0x70, and 0x50 again after FAILED). It differs in the command code (0xD8
  for 0x02), the empty payload, the erase timeout for the program timeout, and the error
  flag that decides FAILED (ERASE\_ERROR, bit 5, for PROGRAM\_ERROR, bit 4).
\<close>

theorem sector_erase_same_sequence:
  "rvlib_spiflash_page_program freq address data nbytes h =
     spec_write_sequence SPIFLASH_CMD_PAGE_PROGRAM SPIFLASH_BIT_FLAGS_PROGRAM_ERROR
       SPIFLASH_PROGRAM_TIMEOUT_US freq address data nbytes h \<and>
   rvlib_spiflash_sector_erase freq address h =
     spec_write_sequence SPIFLASH_CMD_SECTOR_ERASE SPIFLASH_BIT_FLAGS_ERASE_ERROR
       SPIFLASH_ERASE_TIMEOUT_US freq address (\<lambda>_. 0) 0 h \<and>
   SPIFLASH_CMD_SECTOR_ERASE = 0xD8 \<and> SPIFLASH_CMD_PAGE_PROGRAM = 0x02 \<and>
   SPIFLASH_ERASE_TIMEOUT_US = 3000000 \<and> SPIFLASH_PROGRAM_TIMEOUT_US = 5000 \<and>
   SPIFLASH_BIT_FLAGS_ERASE_ERROR = 5 \<and> SPIFLASH_BIT_FLAGS_PROGRAM_ERROR = 4 \<and>
   (rvlib_spiflash_page_program freq address data nbytes h = Some (res, h') \<longrightarrow>
      (\<exists>ev k. trace h' = trace h @ ev \<and>
         commands ev =
           (if res = RVLIB_SPIFLASH_ERR_NOTREADY then [0x70]
            else [0x70, 0x50, 0x06, ucast SPIFLASH_CMD_PAGE_PROGRAM] @ address_bytes address @
                 map (\<lambda>i. ucast (data i)) [0..<nbytes] @ replicate (Suc k) 0x70 @
                 (if res = RVLIB_SPIFLASH_ERR_FAILED then [0x50] else [])))) \<and>
   (rvlib_spiflash_sector_erase freq address h = Some (res, h') \<longrightarrow>
      (\<exists>ev k. trace h' = trace h @ ev \<and>
         commands ev =
           (if res = RVLIB_SPIFLASH_ERR_NOTREADY then [0x70]
            else [0x70, 0x50, 0x06, ucast SPIFLASH_CMD_SECTOR_ERASE] @ address_bytes address @
                 replicate (Suc k) 0x70 @
                 (if res = RVLIB_SPIFLASH_ERR_FAILED then [0x50] else []))))"
proof (intro conjI impI)
  assume "rvlib_spiflash_page_program freq address data nbytes h = Some (res, h')"
  from write_sequence_commands [OF this [unfolded page_program_sequence]]
  show "\<exists>ev k. trace h' = trace h @ ev \<and>
         commands ev =
           (if res = RVLIB_SPIFLASH_ERR_NOTREADY then [0x70]
            else [0x70, 0x50, 0x06, ucast SPIFLASH_CMD_PAGE_PROGRAM] @ address_bytes address @
                 map (\<lambda>i. ucast (data i)) [0..<nbytes] @ replicate (Suc k) 0x70 @
                 (if res = RVLIB_SPIFLASH_ERR_FAILED then [0x50] else []))" .
next
  assume "rvlib_spiflash_sector_erase freq address h = Some (res, h')"
  from write_sequence_commands [OF this [unfolded sector_erase_sequence]]
  show "\<exists>ev k. trace h' = trace h @ ev \<and>
         commands ev =
           (if res = RVLIB_SPIFLASH_ERR_NOTREADY then [0x70]
            else [0x70, 0x50, 0x06, ucast SPIFLASH_CMD_SECTOR_ERASE] @ address_bytes address @
                 replicate (Suc k) 0x70 @
                 (if res = RVLIB_SPIFLASH_ERR_FAILED then [0x50] else []))"
    by (simp only: upt.simps(1) list.map(1) append_Nil)
qed (simp_all add: page_program_sequence sector_erase_sequence src_consts)

theorem sector_erase_same_sequence_witness:
  "\<exists>h' ev k. rvlib_spiflash_sector_erase 50 0x7F0000
       (write_run 0x80 [2, 2, 2, 2, 0] 0xA0 [0, 1]) = Some (RVLIB_SPIFLASH_ERR_FAILED, h') \<and>
     spec_write_sequence SPIFLASH_CMD_SECTOR_ERASE SPIFLASH_BIT_FLAGS_ERASE_ERROR
       SPIFLASH_ERASE_TIMEOUT_US 50 0x7F0000 (\<lambda>_. 0) 0
       (write_run 0x80 [2, 2, 2, 2, 0] 0xA0 [0, 1]) = Some (RVLIB_SPIFLASH_ERR_FAILED, h') \<and>
     trace h' = ev \<and>
     commands ev = [0x70, 0x50, 0x06, 0xD8] @ address_bytes 0x7F0000 @
                   replicate (Suc k) 0x70 @ [0x50]"
proof -
  have "map_option fst (rvlib_spiflash_sector_erase 50 0x7F0000
          (write_run 0x80 [2, 2, 2, 2, 0] 0xA0 [0, 1])) = Some RVLIB_SPIFLASH_ERR_FAILED"
    by code_simp
  from result_of_run [OF this] obtain h' where run:
    "rvlib_spiflash_sector_erase 50 0x7F0000
       (write_run 0x80 [2, 2, 2, 2, 0] 0xA0 [0, 1]) = Some (RVLIB_SPIFLASH_ERR_FAILED, h')"
    by (rule exE)
  note s = sector_erase_same_sequence [of 50 "0x7F0000" _ _
      "write_run 0x80 [2, 2, 2, 2, 0] 0xA0 [0, 1]" RVLIB_SPIFLASH_ERR_FAILED h']
  from s have eq: "rvlib_spiflash_sector_erase 50 0x7F0000
       (write_run 0x80 [2, 2, 2, 2, 0] 0xA0 [0, 1]) =
     spec_write_sequence SPIFLASH_CMD_SECTOR_ERASE SPIFLASH_BIT_FLAGS_ERASE_ERROR
       SPIFLASH_ERASE_TIMEOUT_US 50 0x7F0000 (\<lambda>_. 0) 0
       (write_run 0x80 [2, 2, 2, 2, 0] 0xA0 [0, 1])" by blast
  from s run obtain ev k where
    "trace h' = trace (write_run 0x80 [2, 2, 2, 2, 0] 0xA0 [0, 1]) @ ev"
    "commands ev =
           (if RVLIB_SPIFLASH_ERR_FAILED = RVLIB_SPIFLASH_ERR_NOTREADY then [0x70]
            else [0x70, 0x50, 0x06, ucast SPIFLASH_CMD_SECTOR_ERASE] @ address_bytes 0x7F0000 @
                 replicate (Suc k) 0x70 @
                 (if RVLIB_SPIFLASH_ERR_FAILED = RVLIB_SPIFLASH_ERR_FAILED then [0x50] else []))"
    by blast
  then have "trace h' = ev \<and>
     commands ev = [0x70, 0x50, 0x06, 0xD8] @ address_bytes 0x7F0000 @
                   replicate (Suc k) 0x70 @ [0x50]"
    by (simp add: RVLIB_SPIFLASH_ERR_FAILED_def RVLIB_SPIFLASH_ERR_NOTREADY_def
          SPIFLASH_CMD_SECTOR_ERASE_def del: replicate_Suc)
  with run eq show ?thesis by metis
qed

subsection \<open>Initialisation\<close>

lemma drained_reads_only:
  "drained ev \<Longrightarrow> sent ev = [] \<and> deselects ev = [] \<and> clock_reads ev = []"
proof (induction ev rule: drained.induct)
  case (1 a s es)
  show ?case
  proof (cases "bit s RVLIB_SPIFLASH_BIT_STATUS_READRDY")
    case True
    with "1.prems" obtain d es' where es: "es = Rd RVLIB_SPIFLASH_REG_DATA d # es'"
      and d: "drained es'"
      by (auto split: list.splits event.splits)
    from "1.IH"(1) [OF True es refl d] es show ?thesis by simp
  next
    case False
    show ?thesis
    proof (cases "bit s RVLIB_SPIFLASH_BIT_STATUS_BUSY")
      case True
      with False "1.prems" have "drained es" by simp
      from "1.IH"(2) [OF False _ this] True show ?thesis by simp
    next
      case nb: False
      with False "1.prems" show ?thesis by simp
    qed
  qed
qed simp_all

lemma init_drain_effect:
  "spiflash_init_drain h = Some h' \<Longrightarrow> \<exists>ev. trace h' = trace h @ ev \<and> drained ev"
proof (induction h rule: spiflash_init_drain.induct)
  case (1 h)
  note unf = spiflash_init_drain.simps [of h]
  from "1.prems" obtain status h1 where
    rd: "rvlib_hw_read_reg RVLIB_SPIFLASH_REG_STATUS h = Some (status, h1)"
    by (auto simp: unf split: option.splits)
  note t1 = read_reg_effect [OF rd]
  show ?case
  proof (cases "bit status RVLIB_SPIFLASH_BIT_STATUS_READRDY")
    case True
    then have rr: "status AND push_bit RVLIB_SPIFLASH_BIT_STATUS_READRDY 1 \<noteq> 0"
      by (simp add: test_bit)
    with "1.prems" rd obtain data h2 where
      rd2: "rvlib_hw_read_reg RVLIB_SPIFLASH_REG_DATA h1 = Some (data, h2)"
      and rest: "spiflash_init_drain h2 = Some h'"
      by (auto simp: unf test_bit split: option.splits)
    note t2 = read_reg_effect [OF rd2]
    from "1.IH"(1) [OF rd refl rr rd2 refl rest] obtain ev where
      ev: "trace h' = trace h2 @ ev" "drained ev" by blast
    let ?ev = "Rd RVLIB_SPIFLASH_REG_STATUS status # Rd RVLIB_SPIFLASH_REG_DATA data # ev"
    from ev t1 t2 True have "trace h' = trace h @ ?ev \<and> drained ?ev" by simp
    then show ?thesis by blast
  next
    case False
    then have nr: "\<not> status AND push_bit RVLIB_SPIFLASH_BIT_STATUS_READRDY 1 \<noteq> 0"
      by (simp add: test_bit)
    show ?thesis
    proof (cases "bit status RVLIB_SPIFLASH_BIT_STATUS_BUSY")
      case nb: False
      with "1.prems" rd False have "h' = h1" by (simp add: unf test_bit)
      with t1 False nb have "trace h' = trace h @ [Rd RVLIB_SPIFLASH_REG_STATUS status] \<and>
          drained [Rd RVLIB_SPIFLASH_REG_STATUS status]" by simp
      then show ?thesis by blast
    next
      case True
      then have b: "\<not> status AND push_bit RVLIB_SPIFLASH_BIT_STATUS_BUSY 1 = 0"
        by (simp add: test_bit)
      from "1.prems" rd False True have rest: "spiflash_init_drain h1 = Some h'"
        by (simp add: unf test_bit)
      from "1.IH"(2) [OF rd refl nr b rest] obtain ev where
        ev: "trace h' = trace h1 @ ev" "drained ev" by blast
      let ?ev = "Rd RVLIB_SPIFLASH_REG_STATUS status # ev"
      from ev t1 False True have "trace h' = trace h @ ?ev \<and> drained ?ev" by simp
      then show ?thesis by blast
    qed
  qed
qed

lemma command_simple_sent:
  assumes "spi_command_simple cmd h = Some h'"
  shows "\<exists>ev. trace h' = trace h @ ev \<and> sent ev = [ucast cmd] \<and> received ev = [] \<and>
           deselects ev = [0] \<and> clock_reads ev = []"
proof -
  from command_simple_trace [OF assms] obtain ev s where
    "transaction h h' ev s" "sent ev = [ucast cmd]" "received ev = []" by blast
  then have "trace h' = trace h @
        (ev @ [Rd RVLIB_SPIFLASH_REG_STATUS s, Wr RVLIB_SPIFLASH_REG_SLAVESEL 0]) \<and>
      sent (ev @ [Rd RVLIB_SPIFLASH_REG_STATUS s, Wr RVLIB_SPIFLASH_REG_SLAVESEL 0]) =
        [ucast cmd] \<and>
      received (ev @ [Rd RVLIB_SPIFLASH_REG_STATUS s, Wr RVLIB_SPIFLASH_REG_SLAVESEL 0]) = [] \<and>
      deselects (ev @ [Rd RVLIB_SPIFLASH_REG_STATUS s, Wr RVLIB_SPIFLASH_REG_SLAVESEL 0]) = [0] \<and>
      clock_reads (ev @ [Rd RVLIB_SPIFLASH_REG_STATUS s, Wr RVLIB_SPIFLASH_REG_SLAVESEL 0]) = []"
    by (simp add: transaction_def)
  then show ?thesis by blast
qed

text \<open>
  C9. \<open>rvlib_spiflash_init\<close> returns exactly when these five steps return one after the
  other: the draining loop, a simple command 0xFF, a second simple command 0xFF, a simple
  command 0x50 (CLEAR\_FLAGS), and the completion poll with the erase timeout, 3000000
  microseconds. The trace \<open>dr\<close> of the draining loop has only reads: one DATA read after
  each STATUS read with READ\_READY set, and a last STATUS read with READ\_READY and BUSY
  clear. In the trace \<open>ev\<close> of the three commands the accesses other than STATUS reads
  are, in this order: 0xFF to DATA, deselect, 0xFF to DATA, deselect, 0x50 to DATA,
  deselect. The trace \<open>p\<close> of the poll has READ\_FLAGS transactions only.
\<close>

theorem init_sequence:
  "rvlib_spiflash_init freq h = Some h' \<longleftrightarrow>
     (\<exists>h1 h2 h3 h4 flags dr ev p k.
        spiflash_init_drain h = Some h1 \<and>
        spi_command_simple 0xFF h1 = Some h2 \<and>
        spi_command_simple 0xFF h2 = Some h3 \<and>
        spi_command_simple 0x50 h3 = Some h4 \<and>
        spiflash_poll_completion freq 3000000 h4 = Some (flags, h') \<and>
        trace h1 = trace h @ dr \<and> drained dr \<and>
        sent dr = [] \<and> deselects dr = [] \<and> clock_reads dr = [] \<and>
        trace h4 = trace h1 @ ev \<and>
        bus ev = [Wr RVLIB_SPIFLASH_REG_DATA 0xFF, Wr RVLIB_SPIFLASH_REG_SLAVESEL 0,
                  Wr RVLIB_SPIFLASH_REG_DATA 0xFF, Wr RVLIB_SPIFLASH_REG_SLAVESEL 0,
                  Wr RVLIB_SPIFLASH_REG_DATA 0x50, Wr RVLIB_SPIFLASH_REG_SLAVESEL 0] \<and>
        sent ev = [0xFF, 0xFF, 0x50] \<and> received ev = [] \<and>
        deselects ev = [0, 0, 0] \<and> clock_reads ev = [] \<and>
        trace h' = trace h4 @ p \<and> commands p = replicate (Suc k) 0x70)"
  (is "?run \<longleftrightarrow> ?seq")
proof
  assume ?seq
  then show ?run
    by (auto simp: rvlib_spiflash_init_def SPIFLASH_CMD_CLEAR_FLAGS_def
          SPIFLASH_ERASE_TIMEOUT_US_def)
next
  assume run: ?run
  then obtain h1 h2 h3 h4 flags where
    dr: "spiflash_init_drain h = Some h1"
    and c1: "spi_command_simple 0xff h1 = Some h2"
    and c2: "spi_command_simple 0xff h2 = Some h3"
    and c3: "spi_command_simple SPIFLASH_CMD_CLEAR_FLAGS h3 = Some h4"
    and po: "spiflash_poll_completion freq SPIFLASH_ERASE_TIMEOUT_US h4 = Some (flags, h')"
    by (auto simp: rvlib_spiflash_init_def bind_eq_Some_conv)
  from init_drain_effect [OF dr] obtain d where d: "trace h1 = trace h @ d" "drained d"
    by blast
  note d' = drained_reads_only [OF d(2)]
  from command_simple_sent [OF c1] obtain e1 where e1:
    "trace h2 = trace h1 @ e1" "sent e1 = [ucast (0xff :: 8 word)]" "received e1 = []"
    "deselects e1 = [0]" "clock_reads e1 = []" by blast
  from command_simple_sent [OF c2] obtain e2 where e2:
    "trace h3 = trace h2 @ e2" "sent e2 = [ucast (0xff :: 8 word)]" "received e2 = []"
    "deselects e2 = [0]" "clock_reads e2 = []" by blast
  from command_simple_sent [OF c3] obtain e3 where e3:
    "trace h4 = trace h3 @ e3" "sent e3 = [ucast SPIFLASH_CMD_CLEAR_FLAGS]" "received e3 = []"
    "deselects e3 = [0]" "clock_reads e3 = []" by blast
  from command_simple_bus [OF c1] e1(1) have b1:
    "bus e1 = [Wr RVLIB_SPIFLASH_REG_DATA (ucast (0xff :: 8 word)),
               Wr RVLIB_SPIFLASH_REG_SLAVESEL 0]" by auto
  from command_simple_bus [OF c2] e2(1) have b2:
    "bus e2 = [Wr RVLIB_SPIFLASH_REG_DATA (ucast (0xff :: 8 word)),
               Wr RVLIB_SPIFLASH_REG_SLAVESEL 0]" by auto
  from command_simple_bus [OF c3] e3(1) have b3:
    "bus e3 = [Wr RVLIB_SPIFLASH_REG_DATA (ucast SPIFLASH_CMD_CLEAR_FLAGS),
               Wr RVLIB_SPIFLASH_REG_SLAVESEL 0]" by auto
  from poll_completion_effect [OF po] obtain p rs r where p:
    "trace h' = trace h4 @ p" "commands p = replicate (Suc (length rs)) 0x70"
    "received p = rs @ [r]" by blast
  have po': "spiflash_poll_completion freq 3000000 h4 = Some (flags, h')"
    using po by (simp add: SPIFLASH_ERASE_TIMEOUT_US_def)
  have c3': "spi_command_simple 0x50 h3 = Some h4"
    using c3 by (simp add: SPIFLASH_CMD_CLEAR_FLAGS_def)
  let ?ev = "e1 @ e2 @ e3"
  have "trace h4 = trace h1 @ ?ev \<and>
        bus ?ev = [Wr RVLIB_SPIFLASH_REG_DATA 0xFF, Wr RVLIB_SPIFLASH_REG_SLAVESEL 0,
                  Wr RVLIB_SPIFLASH_REG_DATA 0xFF, Wr RVLIB_SPIFLASH_REG_SLAVESEL 0,
                  Wr RVLIB_SPIFLASH_REG_DATA 0x50, Wr RVLIB_SPIFLASH_REG_SLAVESEL 0] \<and>
        sent ?ev = [0xFF, 0xFF, 0x50] \<and> received ?ev = [] \<and>
        deselects ?ev = [0, 0, 0] \<and> clock_reads ?ev = []"
    using e1 e2 e3 b1 b2 b3 by (simp add: SPIFLASH_CMD_CLEAR_FLAGS_def)
  with dr c1 c2 c3' d d' po' p(1,2) show ?seq by blast
qed
lemma trace_of_run: "map_option trace x = Some tr \<Longrightarrow> \<exists>h'. x = Some h' \<and> trace h' = tr"
  by (cases x) auto

theorem init_sequence_witness:
  "\<exists>h' dr ev p k. rvlib_spiflash_init 50 init_run = Some h' \<and>
     trace h' = [Rd 0 4, Rd 8 0x55, Rd 0 1, Rd 0 0,
                 Rd 0 2, Wr 8 0xFF, Rd 0 0, Wr 4 0,
                 Rd 0 2, Wr 8 0xFF, Rd 0 0, Wr 4 0,
                 Rd 0 2, Wr 8 0x50, Rd 0 0, Wr 4 0,
                 Cyc 0, Rd 0 2, Wr 8 0x70, Rd 0 2, Wr 8 0x100, Rd 0 4, Rd 8 0x80,
                 Rd 0 0, Wr 4 0] \<and>
     trace h' = dr @ ev @ p \<and> drained dr \<and>
     bus ev = [Wr 8 0xFF, Wr 4 0, Wr 8 0xFF, Wr 4 0, Wr 8 0x50, Wr 4 0] \<and>
     commands p = replicate (Suc k) 0x70"
proof -
  have "map_option trace (rvlib_spiflash_init 50 init_run) =
          Some [Rd 0 4, Rd 8 0x55, Rd 0 1, Rd 0 0,
                 Rd 0 2, Wr 8 0xFF, Rd 0 0, Wr 4 0,
                 Rd 0 2, Wr 8 0xFF, Rd 0 0, Wr 4 0,
                 Rd 0 2, Wr 8 0x50, Rd 0 0, Wr 4 0,
                 Cyc 0, Rd 0 2, Wr 8 0x70, Rd 0 2, Wr 8 0x100, Rd 0 4, Rd 8 0x80,
                 Rd 0 0, Wr 4 0]"
    by code_simp
  from trace_of_run [OF this] obtain h' where run: "rvlib_spiflash_init 50 init_run = Some h'"
    and tr: "trace h' = [Rd 0 4, Rd 8 0x55, Rd 0 1, Rd 0 0,
                 Rd 0 2, Wr 8 0xFF, Rd 0 0, Wr 4 0,
                 Rd 0 2, Wr 8 0xFF, Rd 0 0, Wr 4 0,
                 Rd 0 2, Wr 8 0x50, Rd 0 0, Wr 4 0,
                 Cyc 0, Rd 0 2, Wr 8 0x70, Rd 0 2, Wr 8 0x100, Rd 0 4, Rd 8 0x80,
                 Rd 0 0, Wr 4 0]" by blast
  from init_sequence [THEN iffD1, OF run] obtain h1 h4 :: hw and dr ev p k where
    "trace h1 = trace init_run @ dr" "drained dr"
    "trace h4 = trace h1 @ ev"
    "bus ev = [Wr RVLIB_SPIFLASH_REG_DATA 0xFF, Wr RVLIB_SPIFLASH_REG_SLAVESEL 0,
               Wr RVLIB_SPIFLASH_REG_DATA 0xFF, Wr RVLIB_SPIFLASH_REG_SLAVESEL 0,
               Wr RVLIB_SPIFLASH_REG_DATA 0x50, Wr RVLIB_SPIFLASH_REG_SLAVESEL 0]"
    "trace h' = trace h4 @ p" "commands p = replicate (Suc k) 0x70"
    by blast
  then have "trace h' = dr @ ev @ p \<and> drained dr \<and>
     bus ev = [Wr 8 0xFF, Wr 4 0, Wr 8 0xFF, Wr 4 0, Wr 8 0x50, Wr 4 0] \<and>
     commands p = replicate (Suc k) 0x70"
    by (simp add: init_run_def hw_of_def src_consts)
  with run tr show ?thesis by blast
qed

end
